theory Spec2Isabelle
  imports Complex_Main "HOL-Library.Log_Nat"
begin

section \<open>Python primitives used by the models\<close>

text \<open>
  Exceptions are values. \<open>ValueError\<close> is what the validating setters and the Task
  constructor raise (dateutil's \<open>ParserError\<close> is a subclass of it), \<open>KeyError\<close> is what
  \<open>data['field']\<close> raises on a missing key, \<open>JSONDecodeError\<close> and \<open>OSError\<close> are what
  the json and os libraries raise inside the file handler, \<open>OverflowError\<close> and
  \<open>TypeError\<close> are the other exceptions dateutil's parser raises.
\<close>

datatype error = ValueError | KeyError | JSONDecodeError | OSError | OverflowError | TypeError

text \<open>
  A Python \<open>dict\<close> keeps insertion order; \<open>d[k] = v\<close> replaces the value in place when
  \<open>k\<close> is present and appends the pair otherwise. \<open>d.get(k)\<close> is \<open>map_of d k\<close>,
  \<open>d.values()\<close> is \<open>map snd d\<close>.
\<close>

fun dict_set :: "'k \<Rightarrow> 'v \<Rightarrow> ('k \<times> 'v) list \<Rightarrow> ('k \<times> 'v) list" where
  "dict_set k v [] = [(k, v)]"
| "dict_set k v (kv # d) = (if fst kv = k then (k, v) # d else kv # dict_set k v d)"

definition dict_get :: "('k \<times> 'v) list \<Rightarrow> 'k \<Rightarrow> 'v option" where
  "dict_get d k = map_of d k"

definition dict_values :: "('k \<times> 'v) list \<Rightarrow> 'v list" where
  "dict_values d = map snd d"

text \<open>
  \<open>x or d\<close> on an optional string and on an optional list: \<open>None\<close>, the empty string and
  the empty list are falsy.
\<close>

definition or_str :: "string option \<Rightarrow> string \<Rightarrow> string" where
  "or_str x d = (case x of None \<Rightarrow> d | Some v \<Rightarrow> if v = [] then d else v)"

definition or_list :: "'a list option \<Rightarrow> 'a list \<Rightarrow> 'a list" where
  "or_list x d = (case x of None \<Rightarrow> d | Some v \<Rightarrow> if v = [] then d else v)"

text \<open>
  \<open>str.strip()\<close>: the characters below 256 for which \<open>str.isspace\<close> holds are removed
  from both ends.
\<close>

definition isspace :: "char \<Rightarrow> bool" where
  "isspace c = ((of_char c :: nat) \<in> {9, 10, 11, 12, 13, 28, 29, 30, 31, 32, 133, 160})"

definition strip :: "string \<Rightarrow> string" where
  "strip s = rev (dropWhile isspace (rev (dropWhile isspace s)))"

text \<open>\<open>xs.remove(x)\<close> deletes the first occurrence; the callers guard it with \<open>x in xs\<close>.\<close>

definition list_add :: "int \<Rightarrow> int list \<Rightarrow> int list" where
  "list_add x xs = (if x \<notin> set xs then xs @ [x] else xs)"

definition list_remove :: "int \<Rightarrow> int list \<Rightarrow> int list" where
  "list_remove x xs = (if x \<in> set xs then remove1 x xs else xs)"

text \<open>
  A Python \<open>float\<close> is an IEEE 754 binary64 number, and every arithmetic operation on
  floats returns the double nearest to the exact result, a tie going to the double
  whose last bit is 0. A finite double is represented here by the rational number
  it stands for. \<open>floor_log2 x\<close> is the exponent of a positive \<open>x\<close>, the largest \<open>e\<close>
  with \<open>2 ^ e \<le> x\<close>; the doubles next to \<open>x\<close> are the multiples of \<open>2 ^ (e - 52)\<close>,
  and below the smallest normal number \<open>2 ^ -1022\<close> they are the multiples of
  \<open>2 ^ -1074\<close>. \<open>round_double\<close> does not model overflow: it is applied to numbers of
  absolute value at most 100 only.
\<close>

definition floor_log2 :: "rat \<Rightarrow> int" where
  "floor_log2 x =
    (case quotient_of x of (p, q) \<Rightarrow>
       let d = bitlen p - bitlen q in if power_int 2 d \<le> x then d else d - 1)"

definition round_half_even :: "rat \<Rightarrow> int" where
  "round_half_even z =
    (let f = \<lfloor>z\<rfloor>; r = z - of_int f
     in if r < 1 / 2 then f else if 1 / 2 < r then f + 1 else if even f then f else f + 1)"

definition round_double :: "rat \<Rightarrow> rat" where
  "round_double x =
    (if x = 0 then 0
     else
       (let e = max (floor_log2 \<bar>x\<bar>) (- 1022);
            q = power_int 2 (e - 52)
        in of_int (round_half_even (x / q)) * q))"

text \<open>
  \<open>a / b\<close> on two non-negative \<open>int\<close>s (true division; CPython rounds the exact quotient
  once), called with \<open>b \<noteq> 0\<close> only, and \<open>x * y\<close> on two floats.
\<close>

definition int_truediv :: "nat \<Rightarrow> nat \<Rightarrow> rat" where
  "int_truediv a b = round_double (of_nat a / of_nat b)"

definition float_mul :: "rat \<Rightarrow> rat \<Rightarrow> rat" where
  "float_mul x y = round_double (x * y)"

section \<open>models/user.py\<close>

record user =
  user_id :: int
  name :: string
  email :: string
  u_created_at :: string
  projects :: "int list"

text \<open>The class attributes \<open>_all_users\<close> and \<open>_next_id\<close>.\<close>

record user_registry =
  all_users :: "(int \<times> user) list"
  users_next_id :: int

definition User_initial :: user_registry where
  "User_initial = \<lparr>all_users = [], users_next_id = 1\<rparr>"

definition User_get_next_id :: "user_registry \<Rightarrow> int \<times> user_registry" where
  "User_get_next_id s = (users_next_id s, s\<lparr>users_next_id := users_next_id s + 1\<rparr>)"

text \<open>
  \<open>User.__init__\<close>. \<open>now\<close> is what \<open>datetime.now().isoformat()\<close> returns when it is
  called. The fields are assigned to \<open>_name\<close> and \<open>_email\<close> directly, without the setters.
  The result is \<open>Inr\<close> of the new object: the constructor has no raise.
\<close>

definition User_init ::
  "string \<Rightarrow> string \<Rightarrow> int option \<Rightarrow> string option \<Rightarrow> int list option \<Rightarrow> string
     \<Rightarrow> user_registry \<Rightarrow> (error + user) \<times> user_registry" where
  "User_init nm em uid cat ps now s =
    (let (i, s1) = (case uid of
                      Some j \<Rightarrow> if j \<noteq> 0 then (j, s) else User_get_next_id s
                    | None \<Rightarrow> User_get_next_id s);
         u = \<lparr>user_id = i, name = nm, email = em,
              u_created_at = or_str cat now, projects = or_list ps []\<rparr>
     in (Inr u, s1\<lparr>all_users := dict_set i u (all_users s1)\<rparr>))"

definition User_name_setter :: "string \<Rightarrow> user \<Rightarrow> (error + unit) \<times> user" where
  "User_name_setter v u =
    (if v = [] \<or> length (strip v) < 2 then (Inl ValueError, u)
     else (Inr (), u\<lparr>name := strip v\<rparr>))"

definition User_email_setter :: "string \<Rightarrow> user \<Rightarrow> (error + unit) \<times> user" where
  "User_email_setter v u =
    (if CHR ''@'' \<notin> set v \<or> CHR ''.'' \<notin> set v then (Inl ValueError, u)
     else (Inr (), u\<lparr>email := strip v\<rparr>))"

definition User_create ::
  "string \<Rightarrow> string \<Rightarrow> string \<Rightarrow> user_registry \<Rightarrow> (error + user) \<times> user_registry" where
  "User_create nm em now s = User_init nm em None None None now s"


definition User_find_by_id :: "user_registry \<Rightarrow> int \<Rightarrow> user option" where
  "User_find_by_id s i = dict_get (all_users s) i"

definition add_project :: "int \<Rightarrow> user \<Rightarrow> user" where
  "add_project pid u = u\<lparr>projects := list_add pid (projects u)\<rparr>"

definition remove_project :: "int \<Rightarrow> user \<Rightarrow> user" where
  "remove_project pid u = u\<lparr>projects := list_remove pid (projects u)\<rparr>"

text \<open>
  A flat record of users.json. \<open>None\<close> is a key that is absent. \<open>to_dict\<close> writes every
  key; \<open>from_dict\<close> reads three with \<open>data[...]\<close> and two with \<open>data.get\<close>.
\<close>

record user_data =
  d_user_id :: "int option"
  d_name :: "string option"
  d_email :: "string option"
  d_created_at :: "string option"
  d_projects :: "int list option"

definition User_to_dict :: "user \<Rightarrow> user_data" where
  "User_to_dict u = \<lparr>d_user_id = Some (user_id u), d_name = Some (name u),
     d_email = Some (email u), d_created_at = Some (u_created_at u),
     d_projects = Some (projects u)\<rparr>"

definition User_from_dict ::
  "user_data \<Rightarrow> string \<Rightarrow> user_registry \<Rightarrow> (error + user) \<times> user_registry" where
  "User_from_dict d now s =
    (case d_name d of None \<Rightarrow> (Inl KeyError, s) | Some nm \<Rightarrow>
     (case d_email d of None \<Rightarrow> (Inl KeyError, s) | Some em \<Rightarrow>
      (case d_user_id d of None \<Rightarrow> (Inl KeyError, s) | Some i \<Rightarrow>
         User_init nm em (Some i) (d_created_at d) (Some (case d_projects d of None \<Rightarrow> [] | Some ps \<Rightarrow> ps)) now s)))"

text \<open>The loop of \<open>User.load_all\<close>; an exception of \<open>from_dict\<close> leaves it with the state so far.\<close>

fun User_load_loop ::
  "user_data list \<Rightarrow> string \<Rightarrow> user_registry \<Rightarrow> (error + unit) \<times> user_registry" where
  "User_load_loop [] now s = (Inr (), s)"
| "User_load_loop (d # ds) now s =
    (case User_from_dict d now s of
       (Inl e, s1) \<Rightarrow> (Inl e, s1)
     | (Inr u, s1) \<Rightarrow>
         (let s2 = s1\<lparr>all_users := dict_set (user_id u) u (all_users s1)\<rparr>;
              s3 = (if user_id u \<ge> users_next_id s2
                    then s2\<lparr>users_next_id := user_id u + 1\<rparr> else s2)
          in User_load_loop ds now s3))"

text \<open>\<open>data\<close> is what \<open>FileHandler.load_data('users.json')\<close> returned.\<close>

definition User_load_all ::
  "user_data list \<Rightarrow> string \<Rightarrow> user_registry \<Rightarrow> (error + unit) \<times> user_registry" where
  "User_load_all data now s = User_load_loop data now (s\<lparr>all_users := [], users_next_id := 1\<rparr>)"

text \<open>
  The list comprehension of \<open>User.save_all\<close>: the list handed to
  \<open>FileHandler.save_data('users.json', ...)\<close>. \<open>save_all\<close> itself is defined below, after
  the file handler.
\<close>

definition User_records :: "user_registry \<Rightarrow> user_data list" where
  "User_records s = map User_to_dict (dict_values (all_users s))"

section \<open>models/task.py\<close>

record task =
  task_id :: int
  t_title :: string
  t_description :: string
  status :: string
  t_project_id :: int
  assigned_users :: "int list"
  t_created_at :: string

record task_registry =
  all_tasks :: "(int \<times> task) list"
  tasks_next_id :: int

definition Task_initial :: task_registry where
  "Task_initial = \<lparr>all_tasks = [], tasks_next_id = 1\<rparr>"

definition VALID_STATUSES :: "string list" where
  "VALID_STATUSES = [''pending'', ''in_progress'', ''completed'']"

definition Task_get_next_id :: "task_registry \<Rightarrow> int \<times> task_registry" where
  "Task_get_next_id s = (tasks_next_id s, s\<lparr>tasks_next_id := tasks_next_id s + 1\<rparr>)"

text \<open>
  \<open>Task.__init__\<close>: the id is taken first, the status is checked after the fields are
  assigned, and the object is registered last.
\<close>

definition Task_init ::
  "string \<Rightarrow> string \<Rightarrow> int \<Rightarrow> int option \<Rightarrow> string \<Rightarrow> int list option \<Rightarrow> string option
     \<Rightarrow> string \<Rightarrow> task_registry \<Rightarrow> (error + task) \<times> task_registry" where
  "Task_init ti de pid tid st au cat now s =
    (let (i, s1) = (case tid of
                      Some j \<Rightarrow> if j \<noteq> 0 then (j, s) else Task_get_next_id s
                    | None \<Rightarrow> Task_get_next_id s);
         t = \<lparr>task_id = i, t_title = ti, t_description = de, status = st,
              t_project_id = pid, assigned_users = or_list au [],
              t_created_at = or_str cat now\<rparr>
     in if status t \<notin> set VALID_STATUSES then (Inl ValueError, s1)
        else (Inr t, s1\<lparr>all_tasks := dict_set i t (all_tasks s1)\<rparr>))"

definition Task_title_setter :: "string \<Rightarrow> task \<Rightarrow> (error + unit) \<times> task" where
  "Task_title_setter v t =
    (if v = [] \<or> strip v = [] then (Inl ValueError, t)
     else (Inr (), t\<lparr>t_title := strip v\<rparr>))"

definition Task_description_setter :: "string \<Rightarrow> task \<Rightarrow> (error + unit) \<times> task" where
  "Task_description_setter v t = (Inr (), t\<lparr>t_description := (if v \<noteq> [] then strip v else [])\<rparr>)"

definition Task_status_setter :: "string \<Rightarrow> task \<Rightarrow> (error + unit) \<times> task" where
  "Task_status_setter v t =
    (if v \<notin> set VALID_STATUSES then (Inl ValueError, t)
     else (Inr (), t\<lparr>status := v\<rparr>))"

definition mark_complete :: "task \<Rightarrow> (error + unit) \<times> task" where
  "mark_complete t = Task_status_setter ''completed'' t"

definition is_completed :: "task \<Rightarrow> bool" where
  "is_completed t = (status t = ''completed'')"

definition Task_create ::
  "string \<Rightarrow> string \<Rightarrow> int \<Rightarrow> string \<Rightarrow> task_registry \<Rightarrow> (error + task) \<times> task_registry" where
  "Task_create ti de pid now s = Task_init ti de pid None ''pending'' None None now s"

definition Task_get_all :: "task_registry \<Rightarrow> task list" where
  "Task_get_all s = dict_values (all_tasks s)"

definition Task_find_by_id :: "task_registry \<Rightarrow> int \<Rightarrow> task option" where
  "Task_find_by_id s i = dict_get (all_tasks s) i"

definition assign_user :: "int \<Rightarrow> task \<Rightarrow> task" where
  "assign_user uid t = t\<lparr>assigned_users := list_add uid (assigned_users t)\<rparr>"

definition unassign_user :: "int \<Rightarrow> task \<Rightarrow> task" where
  "unassign_user uid t = t\<lparr>assigned_users := list_remove uid (assigned_users t)\<rparr>"

record task_data =
  d_task_id :: "int option"
  d_t_title :: "string option"
  d_t_description :: "string option"
  d_status :: "string option"
  d_t_project_id :: "int option"
  d_assigned_users :: "int list option"
  d_t_created_at :: "string option"

definition Task_to_dict :: "task \<Rightarrow> task_data" where
  "Task_to_dict t = \<lparr>d_task_id = Some (task_id t), d_t_title = Some (t_title t),
     d_t_description = Some (t_description t), d_status = Some (status t),
     d_t_project_id = Some (t_project_id t), d_assigned_users = Some (assigned_users t),
     d_t_created_at = Some (t_created_at t)\<rparr>"

definition Task_from_dict ::
  "task_data \<Rightarrow> string \<Rightarrow> task_registry \<Rightarrow> (error + task) \<times> task_registry" where
  "Task_from_dict d now s =
    (case d_t_title d of None \<Rightarrow> (Inl KeyError, s) | Some ti \<Rightarrow>
     (case d_t_description d of None \<Rightarrow> (Inl KeyError, s) | Some de \<Rightarrow>
      (case d_t_project_id d of None \<Rightarrow> (Inl KeyError, s) | Some pid \<Rightarrow>
       (case d_task_id d of None \<Rightarrow> (Inl KeyError, s) | Some i \<Rightarrow>
          Task_init ti de pid (Some i)
            (case d_status d of None \<Rightarrow> ''pending'' | Some st \<Rightarrow> st)
            (Some (case d_assigned_users d of None \<Rightarrow> [] | Some au \<Rightarrow> au)) (d_t_created_at d) now s))))"

fun Task_load_loop ::
  "task_data list \<Rightarrow> string \<Rightarrow> task_registry \<Rightarrow> (error + unit) \<times> task_registry" where
  "Task_load_loop [] now s = (Inr (), s)"
| "Task_load_loop (d # ds) now s =
    (case Task_from_dict d now s of
       (Inl e, s1) \<Rightarrow> (Inl e, s1)
     | (Inr t, s1) \<Rightarrow>
         (let s2 = s1\<lparr>all_tasks := dict_set (task_id t) t (all_tasks s1)\<rparr>;
              s3 = (if task_id t \<ge> tasks_next_id s2
                    then s2\<lparr>tasks_next_id := task_id t + 1\<rparr> else s2)
          in Task_load_loop ds now s3))"

definition Task_load_all ::
  "task_data list \<Rightarrow> string \<Rightarrow> task_registry \<Rightarrow> (error + unit) \<times> task_registry" where
  "Task_load_all data now s = Task_load_loop data now (s\<lparr>all_tasks := [], tasks_next_id := 1\<rparr>)"

definition Task_records :: "task_registry \<Rightarrow> task_data list" where
  "Task_records s = map Task_to_dict (dict_values (all_tasks s))"

section \<open>models/project.py\<close>

text \<open>
  The due date is a \<open>datetime\<close> object of the standard library, built by dateutil's
  \<open>parser.parse\<close> and written back by \<open>isoformat\<close>. Neither is code of this repository:
  the type of dates is the type variable \<open>'d\<close>, and the two library functions are the
  parameters \<open>parse\<close> and \<open>isoformat\<close> of the functions below, each returning \<open>Inl\<close> of
  the exception when the library raises (\<open>isoformat\<close> raises \<open>ValueError\<close> on a datetime
  whose UTC offset is not strictly between -24 and 24 hours, and dateutil builds such
  datetimes).
\<close>

record 'd project =
  project_id :: int
  p_title :: string
  p_description :: string
  due_date :: 'd
  p_user_id :: int
  tasks :: "int list"
  p_created_at :: string

record 'd project_registry =
  all_projects :: "(int \<times> 'd project) list"
  projects_next_id :: int

definition Project_initial :: "'d project_registry" where
  "Project_initial = \<lparr>all_projects = [], projects_next_id = 1\<rparr>"

definition Project_get_next_id :: "'d project_registry \<Rightarrow> int \<times> 'd project_registry" where
  "Project_get_next_id s = (projects_next_id s, s\<lparr>projects_next_id := projects_next_id s + 1\<rparr>)"

text \<open>
  \<open>Project.__init__\<close>: the id is taken before the date is parsed, and the parser is
  called outside any \<open>try\<close>, so its exception leaves the constructor as it is.
\<close>

definition Project_init ::
  "(string \<Rightarrow> error + 'd) \<Rightarrow> string \<Rightarrow> string \<Rightarrow> string \<Rightarrow> int \<Rightarrow> int option \<Rightarrow> int list option
     \<Rightarrow> string option \<Rightarrow> string \<Rightarrow> 'd project_registry
     \<Rightarrow> (error + 'd project) \<times> 'd project_registry" where
  "Project_init parse ti de dd uid pid ts cat now s =
    (let (i, s1) = (case pid of
                      Some j \<Rightarrow> if j \<noteq> 0 then (j, s) else Project_get_next_id s
                    | None \<Rightarrow> Project_get_next_id s)
     in case parse dd of
          Inl e \<Rightarrow> (Inl e, s1)
        | Inr dt \<Rightarrow>
            (let p = \<lparr>project_id = i, p_title = ti, p_description = de, due_date = dt,
                      p_user_id = uid, tasks = or_list ts [], p_created_at = or_str cat now\<rparr>
             in (Inr p, s1\<lparr>all_projects := dict_set i p (all_projects s1)\<rparr>)))"

definition Project_title_setter :: "string \<Rightarrow> 'd project \<Rightarrow> (error + unit) \<times> 'd project" where
  "Project_title_setter v p =
    (if v = [] \<or> strip v = [] then (Inl ValueError, p)
     else (Inr (), p\<lparr>p_title := strip v\<rparr>))"

definition Project_description_setter ::
  "string \<Rightarrow> 'd project \<Rightarrow> (error + unit) \<times> 'd project" where
  "Project_description_setter v p =
    (Inr (), p\<lparr>p_description := (if v \<noteq> [] then strip v else [])\<rparr>)"

text \<open>
  The due-date setter catches \<open>ValueError\<close> and \<open>TypeError\<close> and raises \<open>ValueError\<close>;
  any other exception of the parser passes through.
\<close>

definition Project_due_date_setter ::
  "(string \<Rightarrow> error + 'd) \<Rightarrow> string \<Rightarrow> 'd project \<Rightarrow> (error + unit) \<times> 'd project" where
  "Project_due_date_setter parse v p =
    (case parse v of
       Inl e \<Rightarrow> (if e = ValueError \<or> e = TypeError then (Inl ValueError, p) else (Inl e, p))
     | Inr dt \<Rightarrow> (Inr (), p\<lparr>due_date := dt\<rparr>))"

definition Project_create ::
  "(string \<Rightarrow> error + 'd) \<Rightarrow> string \<Rightarrow> string \<Rightarrow> string \<Rightarrow> int \<Rightarrow> string \<Rightarrow> 'd project_registry
     \<Rightarrow> (error + 'd project) \<times> 'd project_registry" where
  "Project_create parse ti de dd uid now s = Project_init parse ti de dd uid None None None now s"


definition Project_find_by_id :: "'d project_registry \<Rightarrow> int \<Rightarrow> 'd project option" where
  "Project_find_by_id s i = dict_get (all_projects s) i"

definition add_task :: "int \<Rightarrow> 'd project \<Rightarrow> 'd project" where
  "add_task tid p = p\<lparr>tasks := list_add tid (tasks p)\<rparr>"

definition remove_task :: "int \<Rightarrow> 'd project \<Rightarrow> 'd project" where
  "remove_task tid p = p\<lparr>tasks := list_remove tid (tasks p)\<rparr>"

text \<open>
  \<open>Project.get_completion_percentage\<close>. The result is a Python float: the quotient of
  the two counts is rounded to a double, and so is its product with 100 (the \<open>int\<close> 100
  is converted to the double 100.0 without loss). A \<open>Task\<close> object is truthy, so the
  condition of the generator is "the id resolves and the status is completed".
\<close>

definition get_completion_percentage :: "'d project \<Rightarrow> task_registry \<Rightarrow> rat" where
  "get_completion_percentage p ts =
    (if tasks p = [] then 0
     else
       (let total_tasks = length (tasks p);
            completed_tasks = sum_list (map (\<lambda>_. 1::nat)
              (filter (\<lambda>tid. case Task_find_by_id ts tid of
                                None \<Rightarrow> False
                              | Some t \<Rightarrow> status t = ''completed'') (tasks p)))
        in float_mul (int_truediv completed_tasks total_tasks) 100))"

record project_data =
  d_project_id :: "int option"
  d_p_title :: "string option"
  d_p_description :: "string option"
  d_due_date :: "string option"
  d_p_user_id :: "int option"
  d_tasks :: "int list option"
  d_p_created_at :: "string option"

text \<open>
  \<open>Project.to_dict\<close> calls \<open>isoformat\<close> while it builds the dictionary, so it raises what
  \<open>isoformat\<close> raises.
\<close>

definition Project_to_dict :: "('d \<Rightarrow> error + string) \<Rightarrow> 'd project \<Rightarrow> error + project_data" where
  "Project_to_dict isoformat p =
    (case isoformat (due_date p) of
       Inl e \<Rightarrow> Inl e
     | Inr dd \<Rightarrow>
         Inr \<lparr>d_project_id = Some (project_id p), d_p_title = Some (p_title p),
              d_p_description = Some (p_description p), d_due_date = Some dd,
              d_p_user_id = Some (p_user_id p), d_tasks = Some (tasks p),
              d_p_created_at = Some (p_created_at p)\<rparr>)"

definition Project_from_dict ::
  "(string \<Rightarrow> error + 'd) \<Rightarrow> project_data \<Rightarrow> string \<Rightarrow> 'd project_registry
     \<Rightarrow> (error + 'd project) \<times> 'd project_registry" where
  "Project_from_dict parse d now s =
    (case d_p_title d of None \<Rightarrow> (Inl KeyError, s) | Some ti \<Rightarrow>
     (case d_p_description d of None \<Rightarrow> (Inl KeyError, s) | Some de \<Rightarrow>
      (case d_due_date d of None \<Rightarrow> (Inl KeyError, s) | Some dd \<Rightarrow>
       (case d_p_user_id d of None \<Rightarrow> (Inl KeyError, s) | Some uid \<Rightarrow>
        (case d_project_id d of None \<Rightarrow> (Inl KeyError, s) | Some i \<Rightarrow>
           Project_init parse ti de dd uid (Some i) (Some (case d_tasks d of None \<Rightarrow> [] | Some ts \<Rightarrow> ts))
             (d_p_created_at d) now s)))))"

fun Project_load_loop ::
  "(string \<Rightarrow> error + 'd) \<Rightarrow> project_data list \<Rightarrow> string \<Rightarrow> 'd project_registry
     \<Rightarrow> (error + unit) \<times> 'd project_registry" where
  "Project_load_loop parse [] now s = (Inr (), s)"
| "Project_load_loop parse (d # ds) now s =
    (case Project_from_dict parse d now s of
       (Inl e, s1) \<Rightarrow> (Inl e, s1)
     | (Inr p, s1) \<Rightarrow>
         (let s2 = s1\<lparr>all_projects := dict_set (project_id p) p (all_projects s1)\<rparr>;
              s3 = (if project_id p \<ge> projects_next_id s2
                    then s2\<lparr>projects_next_id := project_id p + 1\<rparr> else s2)
          in Project_load_loop parse ds now s3))"

definition Project_load_all ::
  "(string \<Rightarrow> error + 'd) \<Rightarrow> project_data list \<Rightarrow> string \<Rightarrow> 'd project_registry
     \<Rightarrow> (error + unit) \<times> 'd project_registry" where
  "Project_load_all parse data now s =
     Project_load_loop parse data now (s\<lparr>all_projects := [], projects_next_id := 1\<rparr>)"

text \<open>
  The list comprehension of \<open>Project.save_all\<close>: it stops at the first project whose
  \<open>to_dict\<close> raises.
\<close>

fun map_raising :: "('a \<Rightarrow> error + 'b) \<Rightarrow> 'a list \<Rightarrow> error + 'b list" where
  "map_raising f [] = Inr []"
| "map_raising f (x # xs) =
    (case f x of
       Inl e \<Rightarrow> Inl e
     | Inr y \<Rightarrow> (case map_raising f xs of Inl e \<Rightarrow> Inl e | Inr ys \<Rightarrow> Inr (y # ys)))"

definition Project_records ::
  "('d \<Rightarrow> error + string) \<Rightarrow> 'd project_registry \<Rightarrow> error + project_data list" where
  "Project_records isoformat s =
     map_raising (Project_to_dict isoformat) (dict_values (all_projects s))"

section \<open>utils/file_handler.py\<close>

text \<open>
  The file system is outside the program. What the library calls of one run answer is
  a record: \<open>dir_exists\<close> is \<open>os.path.exists(DATA_DIR)\<close>, \<open>makedirs\<close> the outcome of
  \<open>os.makedirs(DATA_DIR)\<close>, \<open>file_exists\<close> is \<open>os.path.exists\<close> of a path, \<open>read_json\<close>
  the outcome of opening a path and \<open>json.load\<close>, \<open>write_json\<close> the outcome of opening a
  path for writing and \<open>json.dump\<close>. An outcome is the value or the exception raised.
\<close>

record 'r fs_env =
  dir_exists :: bool
  makedirs :: "error + unit"
  file_exists :: "string \<Rightarrow> bool"
  read_json :: "string \<Rightarrow> error + 'r list"
  write_json :: "string \<Rightarrow> 'r list \<Rightarrow> error + unit"

definition DATA_DIR :: string where
  "DATA_DIR = ''data''"

definition ensure_data_dir :: "'r fs_env \<Rightarrow> error + unit" where
  "ensure_data_dir env = (if \<not> dir_exists env then makedirs env else Inr ())"

text \<open>\<open>os.path.join\<close> of two components: an absolute second component stands alone.\<close>

definition path_join :: "string \<Rightarrow> string \<Rightarrow> string" where
  "path_join a b = (if b \<noteq> [] \<and> hd b = CHR ''/'' then b else a @ ''/'' @ b)"

definition get_file_path :: "'r fs_env \<Rightarrow> string \<Rightarrow> error + string" where
  "get_file_path env filename =
    (case ensure_data_dir env of
       Inl e \<Rightarrow> Inl e
     | Inr _ \<Rightarrow> Inr (path_join DATA_DIR filename))"

text \<open>
  \<open>load_data\<close> and \<open>save_data\<close> call \<open>get_file_path\<close> before the \<open>try\<close>; the two
  \<open>except\<close> clauses of \<open>load_data\<close> both return the empty list.
\<close>

definition load_data :: "'r fs_env \<Rightarrow> string \<Rightarrow> error + 'r list" where
  "load_data env filename =
    (case get_file_path env filename of
       Inl e \<Rightarrow> Inl e
     | Inr file_path \<Rightarrow>
         (if file_exists env file_path then
            (case read_json env file_path of
               Inr data \<Rightarrow> Inr data
             | Inl JSONDecodeError \<Rightarrow> Inr []
             | Inl _ \<Rightarrow> Inr [])
          else Inr []))"

definition save_data :: "'r fs_env \<Rightarrow> string \<Rightarrow> 'r list \<Rightarrow> error + bool" where
  "save_data env filename data =
    (case get_file_path env filename of
       Inl e \<Rightarrow> Inl e
     | Inr file_path \<Rightarrow>
         (case write_json env file_path data of
            Inr _ \<Rightarrow> Inr True
          | Inl _ \<Rightarrow> Inr False))"

section \<open>Saving to and loading from the data directory\<close>

text \<open>
  The data directory between two calls. A file holds the list of records that
  \<open>json.load\<close> returns from it, or text that \<open>json.load\<close> rejects: \<open>open(path, 'w')\<close>
  truncates the file and \<open>json.dump\<close> writes the list piece by piece, so a \<open>json.dump\<close>
  that raises leaves a list that is not closed. What \<open>json.load\<close> returns from a file
  that \<open>json.dump\<close> has written in full is the list that was written: the records hold
  integers, strings and lists of integers only. \<open>can_mkdir\<close>, \<open>readable\<close> and \<open>writable\<close>
  say whether \<open>os.makedirs\<close> and \<open>open\<close> succeed, \<open>dumpable\<close> whether \<open>json.dump\<close>
  returns for a list of records; it raises \<open>ValueError\<close> otherwise.
\<close>

datatype 'r json_file = Records "'r list" | Unparsable

record 'r disk =
  has_dir :: bool
  can_mkdir :: bool
  files :: "string \<Rightarrow> 'r json_file option"
  readable :: "string \<Rightarrow> bool"
  writable :: "string \<Rightarrow> bool"
  dumpable :: "'r list \<Rightarrow> bool"

text \<open>
  What the library calls of \<open>FileHandler\<close> answer on a disk. A directory that
  \<open>os.makedirs\<close> has just created holds no file.
\<close>

definition env_of :: "'r disk \<Rightarrow> 'r fs_env" where
  "env_of d =
    \<lparr>dir_exists = has_dir d,
     makedirs = (if can_mkdir d then Inr () else Inl OSError),
     file_exists = (\<lambda>path. has_dir d \<and> files d path \<noteq> None),
     read_json = (\<lambda>path.
       case files d path of
         None \<Rightarrow> Inl OSError
       | Some f \<Rightarrow>
           if \<not> readable d path then Inl OSError
           else (case f of Records rs \<Rightarrow> Inr rs | Unparsable \<Rightarrow> Inl JSONDecodeError)),
     write_json = (\<lambda>path data.
       if \<not> writable d path then Inl OSError
       else if dumpable d data then Inr () else Inl ValueError)\<rparr>"

text \<open>
  The disk that \<open>FileHandler.save_data(filename, data)\<close> leaves: unchanged when
  \<open>os.makedirs\<close> raises; otherwise the directory exists, and the file is as it was when
  it cannot be opened for writing, holds \<open>data\<close> when \<open>json.dump\<close> returns, and is
  unparsable when \<open>json.dump\<close> raises.
\<close>

definition disk_after_save :: "'r disk \<Rightarrow> string \<Rightarrow> 'r list \<Rightarrow> 'r disk" where
  "disk_after_save d filename data =
    (if \<not> has_dir d \<and> \<not> can_mkdir d then d
     else
       (let d1 = d\<lparr>has_dir := True\<rparr>;
            file_path = path_join DATA_DIR filename
        in if \<not> writable d1 file_path then d1
           else d1\<lparr>files := (files d1)(file_path \<mapsto>
                  (if dumpable d1 data then Records data else Unparsable))\<rparr>))"

text \<open>
  \<open>save_all\<close> in full: the list comprehension, then \<open>FileHandler.save_data\<close>, whose
  boolean result is dropped. The second component is the disk it leaves.
\<close>

definition User_save_all ::
  "user_data disk \<Rightarrow> user_registry \<Rightarrow> (error + unit) \<times> user_data disk" where
  "User_save_all d s =
    (let data = User_records s
     in case save_data (env_of d) ''users.json'' data of
          Inl e \<Rightarrow> (Inl e, disk_after_save d ''users.json'' data)
        | Inr _ \<Rightarrow> (Inr (), disk_after_save d ''users.json'' data))"

definition Task_save_all ::
  "task_data disk \<Rightarrow> task_registry \<Rightarrow> (error + unit) \<times> task_data disk" where
  "Task_save_all d s =
    (let data = Task_records s
     in case save_data (env_of d) ''tasks.json'' data of
          Inl e \<Rightarrow> (Inl e, disk_after_save d ''tasks.json'' data)
        | Inr _ \<Rightarrow> (Inr (), disk_after_save d ''tasks.json'' data))"

definition Project_save_all ::
  "('d \<Rightarrow> error + string) \<Rightarrow> project_data disk \<Rightarrow> 'd project_registry
     \<Rightarrow> (error + unit) \<times> project_data disk" where
  "Project_save_all isoformat d s =
    (case Project_records isoformat s of
       Inl e \<Rightarrow> (Inl e, d)
     | Inr data \<Rightarrow>
         (case save_data (env_of d) ''projects.json'' data of
            Inl e \<Rightarrow> (Inl e, disk_after_save d ''projects.json'' data)
          | Inr _ \<Rightarrow> (Inr (), disk_after_save d ''projects.json'' data)))"

text \<open>
  \<open>load_all\<close> in full: \<open>FileHandler.load_data\<close> on the disk, and then the rest of
  \<open>load_all\<close> on the list it returns. When \<open>load_data\<close> raises, the registry has not been
  cleared yet.
\<close>

definition User_load_all_disk ::
  "user_data disk \<Rightarrow> string \<Rightarrow> user_registry \<Rightarrow> (error + unit) \<times> user_registry" where
  "User_load_all_disk d now s =
    (case load_data (env_of d) ''users.json'' of
       Inl e \<Rightarrow> (Inl e, s)
     | Inr data \<Rightarrow> User_load_all data now s)"

definition Task_load_all_disk ::
  "task_data disk \<Rightarrow> string \<Rightarrow> task_registry \<Rightarrow> (error + unit) \<times> task_registry" where
  "Task_load_all_disk d now s =
    (case load_data (env_of d) ''tasks.json'' of
       Inl e \<Rightarrow> (Inl e, s)
     | Inr data \<Rightarrow> Task_load_all data now s)"

definition Project_load_all_disk ::
  "(string \<Rightarrow> error + 'd) \<Rightarrow> project_data disk \<Rightarrow> string \<Rightarrow> 'd project_registry
     \<Rightarrow> (error + unit) \<times> 'd project_registry" where
  "Project_load_all_disk parse d now s =
    (case load_data (env_of d) ''projects.json'' of
       Inl e \<Rightarrow> (Inl e, s)
     | Inr data \<Rightarrow> Project_load_all parse data now s)"

section \<open>Calls on the registries\<close>

text \<open>
  An object returned by \<open>find_by_id\<close> is the one the registry holds, so a setter or a
  relationship method called on it changes the registry's entry in place. \<open>update\<close> is
  that call on the object registered under \<open>k\<close>; on an id that does not resolve there
  is no object to call it on.
\<close>

definition User_update :: "int \<Rightarrow> (user \<Rightarrow> user) \<Rightarrow> user_registry \<Rightarrow> user_registry" where
  "User_update k f s =
    (case User_find_by_id s k of
       None \<Rightarrow> s
     | Some u \<Rightarrow> s\<lparr>all_users := dict_set k (f u) (all_users s)\<rparr>)"

datatype user_op =
    UConstruct string string "int option" "string option" "int list option" string
  | UCreate string string string
  | USetName int string
  | USetEmail int string
  | UAddProject int int
  | URemoveProject int int
  | ULoadAll "user_data list" string

fun User_step :: "user_op \<Rightarrow> user_registry \<Rightarrow> user_registry" where
  "User_step (UConstruct nm em uid cat ps now) s = snd (User_init nm em uid cat ps now s)"
| "User_step (UCreate nm em now) s = snd (User_create nm em now s)"
| "User_step (USetName k v) s = User_update k (\<lambda>u. snd (User_name_setter v u)) s"
| "User_step (USetEmail k v) s = User_update k (\<lambda>u. snd (User_email_setter v u)) s"
| "User_step (UAddProject k pid) s = User_update k (add_project pid) s"
| "User_step (URemoveProject k pid) s = User_update k (remove_project pid) s"
| "User_step (ULoadAll data now) s = snd (User_load_all data now s)"

text \<open>\<open>isoformat()\<close> of a datetime is never the empty string.\<close>

fun user_clock_ok :: "user_op \<Rightarrow> bool" where
  "user_clock_ok (UConstruct nm em uid cat ps now) = (now \<noteq> [])"
| "user_clock_ok (UCreate nm em now) = (now \<noteq> [])"
| "user_clock_ok (ULoadAll data now) = (now \<noteq> [])"
| "user_clock_ok _ = True"

text \<open>A constructor call that passes an id of its own (a truthy \<open>user_id\<close>).\<close>

fun user_explicit_id :: "user_op \<Rightarrow> bool" where
  "user_explicit_id (UConstruct nm em (Some i) cat ps now) = (i \<noteq> 0)"
| "user_explicit_id _ = False"

definition User_run :: "user_op list \<Rightarrow> user_registry" where
  "User_run ops = fold User_step ops User_initial"

definition Task_update :: "int \<Rightarrow> (task \<Rightarrow> task) \<Rightarrow> task_registry \<Rightarrow> task_registry" where
  "Task_update k f s =
    (case Task_find_by_id s k of
       None \<Rightarrow> s
     | Some t \<Rightarrow> s\<lparr>all_tasks := dict_set k (f t) (all_tasks s)\<rparr>)"

datatype task_op =
    TConstruct string string int "int option" string "int list option" "string option" string
  | TCreate string string int string
  | TSetTitle int string
  | TSetDescription int string
  | TSetStatus int string
  | TMarkComplete int
  | TAssignUser int int
  | TUnassignUser int int
  | TLoadAll "task_data list" string

fun Task_step :: "task_op \<Rightarrow> task_registry \<Rightarrow> task_registry" where
  "Task_step (TConstruct ti de pid tid st au cat now) s =
     snd (Task_init ti de pid tid st au cat now s)"
| "Task_step (TCreate ti de pid now) s = snd (Task_create ti de pid now s)"
| "Task_step (TSetTitle k v) s = Task_update k (\<lambda>t. snd (Task_title_setter v t)) s"
| "Task_step (TSetDescription k v) s = Task_update k (\<lambda>t. snd (Task_description_setter v t)) s"
| "Task_step (TSetStatus k v) s = Task_update k (\<lambda>t. snd (Task_status_setter v t)) s"
| "Task_step (TMarkComplete k) s = Task_update k (\<lambda>t. snd (mark_complete t)) s"
| "Task_step (TAssignUser k uid) s = Task_update k (assign_user uid) s"
| "Task_step (TUnassignUser k uid) s = Task_update k (unassign_user uid) s"
| "Task_step (TLoadAll data now) s = snd (Task_load_all data now s)"

fun task_clock_ok :: "task_op \<Rightarrow> bool" where
  "task_clock_ok (TConstruct ti de pid tid st au cat now) = (now \<noteq> [])"
| "task_clock_ok (TCreate ti de pid now) = (now \<noteq> [])"
| "task_clock_ok (TLoadAll data now) = (now \<noteq> [])"
| "task_clock_ok _ = True"

definition Task_run :: "task_op list \<Rightarrow> task_registry" where
  "Task_run ops = fold Task_step ops Task_initial"


definition Project_update ::
  "int \<Rightarrow> ('d project \<Rightarrow> 'd project) \<Rightarrow> 'd project_registry \<Rightarrow> 'd project_registry" where
  "Project_update k f s =
    (case Project_find_by_id s k of
       None \<Rightarrow> s
     | Some p \<Rightarrow> s\<lparr>all_projects := dict_set k (f p) (all_projects s)\<rparr>)"

datatype project_op =
    PConstruct string string string int "int option" "int list option" "string option" string
  | PCreate string string string int string
  | PSetTitle int string
  | PSetDescription int string
  | PSetDueDate int string
  | PAddTask int int
  | PRemoveTask int int
  | PLoadAll "project_data list" string

fun Project_step ::
  "(string \<Rightarrow> error + 'd) \<Rightarrow> project_op \<Rightarrow> 'd project_registry \<Rightarrow> 'd project_registry" where
  "Project_step parse (PConstruct ti de dd uid pid ts cat now) s =
     snd (Project_init parse ti de dd uid pid ts cat now s)"
| "Project_step parse (PCreate ti de dd uid now) s = snd (Project_create parse ti de dd uid now s)"
| "Project_step parse (PSetTitle k v) s = Project_update k (\<lambda>p. snd (Project_title_setter v p)) s"
| "Project_step parse (PSetDescription k v) s =
     Project_update k (\<lambda>p. snd (Project_description_setter v p)) s"
| "Project_step parse (PSetDueDate k v) s =
     Project_update k (\<lambda>p. snd (Project_due_date_setter parse v p)) s"
| "Project_step parse (PAddTask k tid) s = Project_update k (add_task tid) s"
| "Project_step parse (PRemoveTask k tid) s = Project_update k (remove_task tid) s"
| "Project_step parse (PLoadAll data now) s = snd (Project_load_all parse data now s)"

fun project_clock_ok :: "project_op \<Rightarrow> bool" where
  "project_clock_ok (PConstruct ti de dd uid pid ts cat now) = (now \<noteq> [])"
| "project_clock_ok (PCreate ti de dd uid now) = (now \<noteq> [])"
| "project_clock_ok (PLoadAll data now) = (now \<noteq> [])"
| "project_clock_ok _ = True"

definition Project_run :: "(string \<Rightarrow> error + 'd) \<Rightarrow> project_op list \<Rightarrow> 'd project_registry" where
  "Project_run parse ops = fold (Project_step parse) ops Project_initial"








section \<open>Predicates of the statements\<close>

text \<open>The keys \<open>User.from_dict\<close> reads with \<open>data[...]\<close>: a record without one is malformed.\<close>

definition User_well_formed :: "user_data \<Rightarrow> bool" where
  "User_well_formed d = (d_name d \<noteq> None \<and> d_email d \<noteq> None \<and> d_user_id d \<noteq> None)"

text \<open>The same for \<open>Task.from_dict\<close> and \<open>Project.from_dict\<close>.\<close>

definition Task_well_formed :: "task_data \<Rightarrow> bool" where
  "Task_well_formed d =
    (d_t_title d \<noteq> None \<and> d_t_description d \<noteq> None \<and> d_t_project_id d \<noteq> None \<and>
     d_task_id d \<noteq> None)"

definition Project_well_formed :: "project_data \<Rightarrow> bool" where
  "Project_well_formed d =
    (d_p_title d \<noteq> None \<and> d_p_description d \<noteq> None \<and> d_due_date d \<noteq> None \<and>
     d_p_user_id d \<noteq> None \<and> d_project_id d \<noteq> None)"

text \<open>
  Modelled from the spec: the completion percentage as the specification words it. An
  id that does not resolve in the Task registry counts neither in the total nor as
  completed; the quotient and the product are the same float operations as in the code.
\<close>

definition spec_completion_percentage :: "'d project \<Rightarrow> task_registry \<Rightarrow> rat" where
  "spec_completion_percentage p ts =
    (if tasks p = [] then 0
     else
       (let resolving = filter (\<lambda>tid. Task_find_by_id ts tid \<noteq> None) (tasks p);
            completed = filter (\<lambda>tid. case Task_find_by_id ts tid of
                                          None \<Rightarrow> False
                                        | Some t \<Rightarrow> status t = ''completed'') resolving
        in float_mul (int_truediv (length completed) (length resolving)) 100))"

section \<open>Invariants of the registries\<close>

text \<open>
  \<open>keys_ok\<close>: the registry is a dictionary (no key twice) and every object is stored
  under its own id. \<open>ids_below\<close>: every registered id is below the counter.
  \<open>storable\<close>: what \<open>from_dict\<close> needs to rebuild an object from its \<open>to_dict\<close>: an id
  and a timestamp that are truthy, and for a task a valid status. For tasks and
  projects it includes \<open>keys_ok\<close>.
\<close>

definition User_keys_ok :: "user_registry \<Rightarrow> bool" where
  "User_keys_ok s =
    (distinct (map fst (all_users s)) \<and> (\<forall>(k, u) \<in> set (all_users s). user_id u = k))"

definition User_ids_below :: "user_registry \<Rightarrow> bool" where
  "User_ids_below s = (\<forall>k \<in> fst ` set (all_users s). k < users_next_id s)"

definition User_storable :: "user_registry \<Rightarrow> bool" where
  "User_storable s =
    (1 \<le> users_next_id s \<and> (\<forall>(k, u) \<in> set (all_users s). k \<noteq> 0 \<and> u_created_at u \<noteq> []))"

definition Task_storable :: "task_registry \<Rightarrow> bool" where
  "Task_storable s =
    (1 \<le> tasks_next_id s \<and> distinct (map fst (all_tasks s)) \<and>
     (\<forall>(k, t) \<in> set (all_tasks s).
        task_id t = k \<and> k \<noteq> 0 \<and> t_created_at t \<noteq> [] \<and> status t \<in> set VALID_STATUSES))"

definition Project_storable :: "'d project_registry \<Rightarrow> bool" where
  "Project_storable s =
    (1 \<le> projects_next_id s \<and> distinct (map fst (all_projects s)) \<and>
     (\<forall>(k, p) \<in> set (all_projects s).
        project_id p = k \<and> k \<noteq> 0 \<and> p_created_at p \<noteq> []))"





section \<open>Concrete objects used in the examples\<close>

definition example_user :: user where
  "example_user = \<lparr>user_id = 1, name = ''Ana'', email = ''ana@x.com'',
     u_created_at = ''2024-01-01T00:00:00'', projects = [4, 2]\<rparr>"

definition example_project :: "string project" where
  "example_project = \<lparr>project_id = 4, p_title = ''Launch'', p_description = [],
     due_date = ''2099-01-01T00:00:00'', p_user_id = 1, tasks = [5, 6],
     p_created_at = ''2024-01-01T00:00:00''\<rparr>"

definition example_task :: task where
  "example_task = \<lparr>task_id = 5, t_title = ''Write doc'', t_description = [],
     status = ''pending'', t_project_id = 4, assigned_users = [1],
     t_created_at = ''2024-01-01T00:00:00''\<rparr>"

definition example_tasks :: task_registry where
  "example_tasks = \<lparr>all_tasks = [(5, example_task\<lparr>status := ''completed''\<rparr>)], tasks_next_id = 6\<rparr>"

definition example_tasks2 :: task_registry where
  "example_tasks2 = \<lparr>all_tasks = [(5, example_task\<lparr>status := ''completed''\<rparr>),
      (6, example_task\<lparr>task_id := 6\<rparr>)], tasks_next_id = 7\<rparr>"

text \<open>Twenty listed ids, of which the first eleven resolve to completed tasks.\<close>

definition example_project20 :: "string project" where
  "example_project20 =
     example_project\<lparr>tasks := [1, 2, 3, 4, 5, 6, 7, 8, 9, 10, 11, 12, 13, 14, 15, 16, 17, 18, 19, 20]\<rparr>"

definition example_tasks11 :: task_registry where
  "example_tasks11 =
     \<lparr>all_tasks = map (\<lambda>i. (i, example_task\<lparr>task_id := i, status := ''completed''\<rparr>))
                      [1, 2, 3, 4, 5, 6, 7, 8, 9, 10, 11],
      tasks_next_id = 12\<rparr>"

text \<open>
  CPython converts an \<open>int\<close> of more than 4300 decimal digits to text only on request
  (the default of \<open>sys.set_int_max_str_digits\<close>): \<open>json.dump\<close> raises \<open>ValueError\<close> on
  a record that holds one. \<open>python_disk\<close> is a data directory that does not exist yet
  and can be created, read and written, with that \<open>json.dump\<close>; \<open>fresh_disk\<close> is such a
  directory with a \<open>json.dump\<close> that returns on every list.
\<close>

definition int_max_str :: int where
  "int_max_str = 10 ^ 4300"

definition user_dumpable :: "user_data list \<Rightarrow> bool" where
  "user_dumpable rs =
    list_all (\<lambda>r.
      (case d_user_id r of None \<Rightarrow> True | Some i \<Rightarrow> \<bar>i\<bar> < int_max_str) \<and>
      (case d_projects r of None \<Rightarrow> True | Some ps \<Rightarrow> list_all (\<lambda>i. \<bar>i\<bar> < int_max_str) ps)) rs"

definition python_disk :: "user_data disk" where
  "python_disk = \<lparr>has_dir = False, can_mkdir = True, files = (\<lambda>_. None),
     readable = (\<lambda>_. True), writable = (\<lambda>_. True), dumpable = user_dumpable\<rparr>"

definition fresh_disk :: "'r disk" where
  "fresh_disk = \<lparr>has_dir = False, can_mkdir = True, files = (\<lambda>_. None),
     readable = (\<lambda>_. True), writable = (\<lambda>_. True), dumpable = (\<lambda>_. True)\<rparr>"

definition huge_id_ops :: "user_op list" where
  "huge_id_ops = [UConstruct ''Ana'' ''ana@x.com'' (Some int_max_str) None None ''2024-01-01T09:00:00'']"

definition unwritable_env :: "user_data fs_env" where
  "unwritable_env = \<lparr>dir_exists = False, makedirs = Inl OSError, file_exists = (\<lambda>_. False),
     read_json = (\<lambda>_. Inl OSError), write_json = (\<lambda>_ _. Inl OSError)\<rparr>"

definition user_record :: "int \<Rightarrow> string \<Rightarrow> user_data" where
  "user_record i nm = \<lparr>d_user_id = Some i, d_name = Some nm, d_email = Some ''x@y.z'',
     d_created_at = Some ''2024-01-01T00:00:00'', d_projects = Some []\<rparr>"

definition malformed_record :: user_data where
  "malformed_record = \<lparr>d_user_id = Some 2, d_name = None, d_email = Some ''x@y.z'',
     d_created_at = None, d_projects = None\<rparr>"

definition example_user_ops :: "user_op list" where
  "example_user_ops = [UCreate ''Ana'' ''ana@x.com'' ''2024-01-01T09:00:00'', UAddProject 1 1]"

definition example_project_ops :: "project_op list" where
  "example_project_ops =
     [PCreate ''Launch'' [] ''2099-01-01T00:00:00'' 1 ''2024-01-01T09:01:00'', PAddTask 1 1]"

definition example_task_ops :: "task_op list" where
  "example_task_ops =
     [TCreate ''Write doc'' [] 1 ''2024-01-01T09:02:00'', TAssignUser 1 1, TMarkComplete 1]"

text \<open>
  A parser for the examples: it accepts one date, raises \<open>OverflowError\<close> on a run of
  twenty nines, as dateutil does on a number too large for a date field, and raises
  \<open>ValueError\<close> on everything else.
\<close>

definition example_parse :: "string \<Rightarrow> error + string" where
  "example_parse s =
    (if s = ''2099-01-01'' then Inr s
     else if s = ''99999999999999999999'' then Inl OverflowError
     else Inl ValueError)"

section \<open>Floats\<close>

lemma bitlen_rat_bounds:
  assumes "0 < (p::int)"
  shows "power_int 2 (bitlen p - 1) \<le> (of_int p :: rat)" and "(of_int p :: rat) < power_int 2 (bitlen p)"
proof -
  from bitlen_bounds [OF assms] have a: "2 ^ nat (bitlen p - 1) \<le> p" and b: "p < 2 ^ nat (bitlen p)"
    by simp_all
  from assms have one: "1 \<le> bitlen p" by (auto simp: bitlen_alt_def)
  have "(of_int (2 ^ nat (bitlen p - 1)) :: rat) \<le> of_int p" using a by (simp only: of_int_le_iff)
  then show "power_int 2 (bitlen p - 1) \<le> (of_int p :: rat)"
    using one by (simp add: power_int_nonneg_exp)
  have "(of_int p :: rat) < of_int (2 ^ nat (bitlen p))" using b by (simp only: of_int_less_iff)
  then show "(of_int p :: rat) < power_int 2 (bitlen p)"
    using one by (simp add: power_int_nonneg_exp)
qed

lemma floor_log2_bounds:
  assumes "0 < x"
  shows "power_int 2 (floor_log2 x) \<le> x" and "x < power_int 2 (floor_log2 x + 1)"
proof -
  obtain p q where pq: "quotient_of x = (p, q)" by (cases "quotient_of x")
  then have q: "0 < q" by (rule quotient_of_denom_pos)
  from pq have x: "x = of_int p / of_int q" by (rule quotient_of_div)
  from assms q x have p: "0 < p" by (simp add: zero_less_divide_iff)
  let ?d = "bitlen p - bitlen q"
  have qpos: "(0::rat) < of_int q" using q by simp
  have lo: "power_int 2 (?d - 1) \<le> x"
  proof -
    have "power_int 2 (?d - 1) = (power_int 2 (bitlen p - 1) :: rat) / power_int 2 (bitlen q)"
      by (simp add: power_int_diff)
    also have "\<dots> \<le> of_int p / power_int 2 (bitlen q)"
      using bitlen_rat_bounds(1) [OF p] by (simp add: divide_right_mono)
    also have "\<dots> \<le> of_int p / of_int q"
      using bitlen_rat_bounds(2) [OF q] p qpos by (simp add: frac_le)
    finally show ?thesis by (simp add: x)
  qed
  have hi: "x < power_int 2 (?d + 1)"
  proof -
    have "x = of_int p / of_int q" by (rule x)
    also have "\<dots> < power_int 2 (bitlen p) / of_int q"
      using bitlen_rat_bounds(2) [OF p] qpos by (simp add: divide_strict_right_mono)
    also have "\<dots> \<le> power_int 2 (bitlen p) / power_int 2 (bitlen q - 1)"
      using bitlen_rat_bounds(1) [OF q] by (simp add: frac_le)
    also have "\<dots> = power_int 2 (bitlen p - (bitlen q - 1))"
      by (rule power_int_diff [symmetric]) simp
    also have "bitlen p - (bitlen q - 1) = ?d + 1" by simp
    finally show ?thesis .
  qed
  show "power_int 2 (floor_log2 x) \<le> x"
    using lo by (simp add: floor_log2_def pq Let_def)
  show "x < power_int 2 (floor_log2 x + 1)"
    using hi by (auto simp add: floor_log2_def pq Let_def not_le)
qed

lemma round_half_even_le:
  assumes "z \<le> of_int N"
  shows "round_half_even z \<le> N"
proof (cases "\<lfloor>z\<rfloor> = N")
  case True
  with assms have "z = of_int N" using of_int_floor_le [of z] by simp
  then show ?thesis by (simp add: round_half_even_def)
next
  case False
  from assms have "\<lfloor>z\<rfloor> \<le> N" by (simp add: floor_le_iff)
  with False have "\<lfloor>z\<rfloor> + 1 \<le> N" by simp
  then show ?thesis by (simp add: round_half_even_def Let_def)
qed

lemma round_half_even_ge:
  assumes "of_int N \<le> z"
  shows "N \<le> round_half_even z"
proof -
  from assms have "N \<le> \<lfloor>z\<rfloor>" by (simp add: le_floor_iff)
  then show ?thesis by (simp add: round_half_even_def Let_def)
qed

lemma round_double_nonneg:
  assumes "0 \<le> x"
  shows "0 \<le> round_double x"
proof (cases "x = 0")
  case True
  then show ?thesis by (simp add: round_double_def)
next
  case False
  let ?q = "power_int 2 (max (floor_log2 \<bar>x\<bar>) (- 1022) - 52) :: rat"
  have q: "0 < ?q" by simp
  with assms have "of_int 0 \<le> x / ?q" by simp
  then have "0 \<le> round_half_even (x / ?q)" by (rule round_half_even_ge)
  with q False show ?thesis by (simp add: round_double_def Let_def)
qed

lemma pow2_less_imp:
  assumes "(power_int 2 a :: rat) < power_int 2 b"
  shows "a < b"
proof (rule ccontr)
  assume "\<not> a < b"
  then have "b \<le> a" by simp
  then have "(power_int 2 b :: rat) \<le> power_int 2 a" by (rule power_int_increasing) simp
  with assms show False by simp
qed

lemma round_double_le:
  assumes "0 < x" and "x \<le> of_int m * power_int 2 k" and "x < power_int 2 (b + 1)"
    and "b - 52 \<le> k" and "- 1074 \<le> k"
  shows "round_double x \<le> of_int m * power_int 2 k"
proof -
  let ?e = "max (floor_log2 \<bar>x\<bar>) (- 1022)"
  let ?q = "power_int 2 (?e - 52) :: rat"
  let ?j = "k - (?e - 52)"
  have q: "0 < ?q" by simp
  have ax: "\<bar>x\<bar> = x" using assms(1) by simp
  have "power_int 2 (floor_log2 x) \<le> x" by (rule floor_log2_bounds(1) [OF assms(1)])
  with assms(3) have "(power_int 2 (floor_log2 x) :: rat) < power_int 2 (b + 1)" by simp
  then have "floor_log2 x < b + 1" by (rule pow2_less_imp)
  with assms(4,5) have j: "0 \<le> ?j" unfolding ax by simp
  have split: "(power_int 2 k :: rat) = power_int 2 ?j * ?q"
  proof -
    have "(power_int 2 ?j :: rat) * ?q = power_int 2 (?j + (?e - 52))"
      by (rule power_int_add [symmetric]) simp
    also have "?j + (?e - 52) = k" by simp
    finally show ?thesis by simp
  qed
  have int: "(power_int 2 ?j :: rat) = of_int (2 ^ nat ?j)"
    using j by (simp add: power_int_nonneg_exp)
  have B: "of_int m * (power_int 2 k :: rat) = of_int (m * 2 ^ nat ?j) * ?q"
    by (subst split) (simp only: int of_int_mult mult.assoc)
  from assms(2) have "x \<le> of_int (m * 2 ^ nat ?j) * ?q" by (simp only: B)
  then have "x / ?q \<le> of_int (m * 2 ^ nat ?j)" using q by (simp only: pos_divide_le_eq)
  then have "round_half_even (x / ?q) \<le> m * 2 ^ nat ?j" by (rule round_half_even_le)
  then have "(of_int (round_half_even (x / ?q)) :: rat) \<le> of_int (m * 2 ^ nat ?j)"
    by (simp only: of_int_le_iff)
  then have "of_int (round_half_even (x / ?q)) * ?q \<le> of_int (m * 2 ^ nat ?j) * ?q"
    using q by (simp only: mult_le_cancel_right_pos)
  moreover have "round_double x = of_int (round_half_even (x / ?q)) * ?q"
    using assms(1) by (simp add: round_double_def Let_def)
  ultimately show ?thesis by (simp only: B)
qed

lemma round_double_unit:
  assumes "0 \<le> x" and "x \<le> 1"
  shows "0 \<le> round_double x \<and> round_double x \<le> 1"
proof (cases "x = 0")
  case True
  then show ?thesis by (simp add: round_double_def)
next
  case False
  with assms have pos: "0 < x" by simp
  have "round_double x \<le> of_int 1 * power_int 2 0"
    by (rule round_double_le [where b = 0, OF pos]) (use assms in simp_all)
  with round_double_nonneg [OF assms(1)] show ?thesis by simp
qed

lemma round_double_percent:
  assumes "0 \<le> y" and "y \<le> 1"
  shows "0 \<le> round_double (y * 100) \<and> round_double (y * 100) \<le> 100"
proof (cases "y = 0")
  case True
  then show ?thesis by (simp add: round_double_def)
next
  case False
  with assms have pos: "0 < y * 100" by simp
  from assms have le: "y * 100 \<le> 100" by simp
  have "round_double (y * 100) \<le> of_int 25 * power_int 2 2"
    by (rule round_double_le [where b = 6, OF pos]) (use le in simp_all)
  moreover have "0 \<le> round_double (y * 100)"
    by (rule round_double_nonneg) (use assms in simp)
  ultimately show ?thesis by simp
qed

lemma round_half_even_err: "\<bar>of_int (round_half_even z) - z\<bar> \<le> 1 / 2"
proof -
  have a: "of_int \<lfloor>z\<rfloor> \<le> z" and b: "z < of_int \<lfloor>z\<rfloor> + 1" by linarith+
  show ?thesis
    using a b by (auto simp: round_half_even_def Let_def abs_le_iff)
qed

lemma round_double_err:
  assumes "power_int 2 (- 1022) \<le> x"
  shows "\<bar>round_double x - x\<bar> \<le> x * power_int 2 (- 53)"
proof -
  have "(0::rat) < power_int 2 (- 1022)" by (rule zero_less_power_int) simp
  from this assms have pos: "0 < x" by (rule less_le_trans)
  let ?e = "floor_log2 x"
  let ?q = "power_int 2 (?e - 52) :: rat"
  have q: "0 < ?q" by simp
  have "x < power_int 2 (?e + 1)" by (rule floor_log2_bounds(2) [OF pos])
  with assms have "(power_int 2 (- 1022) :: rat) < power_int 2 (?e + 1)" by (rule le_less_trans)
  then have "- 1022 < ?e + 1" by (rule pow2_less_imp)
  then have e: "max (floor_log2 \<bar>x\<bar>) (- 1022) = ?e" using pos by simp
  have rd: "round_double x = of_int (round_half_even (x / ?q)) * ?q"
    using pos e by (simp add: round_double_def Let_def)
  have "round_double x - x = (of_int (round_half_even (x / ?q)) - x / ?q) * ?q"
    using q by (simp add: rd algebra_simps)
  then have "\<bar>round_double x - x\<bar> = \<bar>of_int (round_half_even (x / ?q)) - x / ?q\<bar> * ?q"
    using q by (simp add: abs_mult)
  also have "\<dots> \<le> 1 / 2 * ?q"
    using round_half_even_err [of "x / ?q"] q by (simp only: mult_le_cancel_right_pos)
  also have "1 / 2 * ?q = power_int 2 ?e * power_int 2 (- 53)"
  proof -
    have "(power_int 2 ?e :: rat) * power_int 2 (- 53) = power_int 2 (?e + (- 53))"
      by (rule power_int_add [symmetric]) simp
    also have "?e + (- 53) = (?e - 52) + (- 1)" by simp
    also have "(power_int 2 ((?e - 52) + (- 1)) :: rat) = ?q * power_int 2 (- 1)"
      by (rule power_int_add) simp
    finally show ?thesis by (simp add: power_int_minus)
  qed
  also have "\<dots> \<le> x * power_int 2 (- 53)"
    using floor_log2_bounds(1) [OF pos] by (simp only: mult_le_cancel_right_pos zero_less_power_int zero_less_numeral)
  finally show ?thesis .
qed

lemma twice_rounded_err:
  assumes "power_int 2 (- 1022) \<le> x"
  shows "\<bar>round_double (round_double x * 100) - x * 100\<bar> \<le> x * 100 / 2 ^ 51"
proof -
  define u :: rat where "u = power_int 2 (- 53)"
  have u0: "0 < u" unfolding u_def by (rule zero_less_power_int) simp
  have u1: "u \<le> 1 / 2" unfolding u_def by (simp add: power_int_minus field_simps)
  have u4: "4 * u = 1 / 2 ^ 51" unfolding u_def by (simp add: power_int_minus)
  have "(0::rat) < power_int 2 (- 1022)" by (rule zero_less_power_int) simp
  from this assms have pos: "0 < x" by (rule less_le_trans)
  let ?y = "round_double x"
  from round_double_err [OF assms] have e1: "\<bar>?y - x\<bar> \<le> x * u" by (simp only: u_def)
  then have ylo: "x - x * u \<le> ?y" and yhi: "?y \<le> x + x * u" by (simp_all add: abs_le_iff)
  have "x * (1 / 2) \<le> x - x * u"
  proof -
    have "x * u \<le> x * (1 / 2)" using u1 pos by (simp only: mult_le_cancel_left_pos)
    then show ?thesis by simp
  qed
  from this ylo have yhalf: "x * (1 / 2) \<le> ?y" by (rule order_trans)
  then have "x \<le> ?y * 100" using pos by simp
  with assms have big: "power_int 2 (- 1022) \<le> ?y * 100" by (rule order_trans)
  from round_double_err [OF big] have e2: "\<bar>round_double (?y * 100) - ?y * 100\<bar> \<le> ?y * 100 * u"
    by (simp only: u_def)
  have "?y * 100 * u \<le> (x + x * u) * 100 * u"
    using yhi u0 by simp
  with e2 have e2': "\<bar>round_double (?y * 100) - ?y * 100\<bar> \<le> (x + x * u) * 100 * u"
    by (rule order_trans)
  have "round_double (?y * 100) - x * 100 =
      (round_double (?y * 100) - ?y * 100) + (?y - x) * 100"
    by (simp add: algebra_simps)
  then have "\<bar>round_double (?y * 100) - x * 100\<bar> \<le>
      \<bar>round_double (?y * 100) - ?y * 100\<bar> + \<bar>(?y - x) * 100\<bar>"
    by (simp only: abs_triangle_ineq)
  moreover have "\<bar>(?y - x) * 100\<bar> = \<bar>?y - x\<bar> * 100"
    by (simp only: abs_mult abs_numeral)
  ultimately have tri: "\<bar>round_double (?y * 100) - x * 100\<bar> \<le>
      \<bar>round_double (?y * 100) - ?y * 100\<bar> + \<bar>?y - x\<bar> * 100"
    by (simp only:)
  have e1': "\<bar>?y - x\<bar> * 100 \<le> x * u * 100"
    using e1 by (rule mult_right_mono) simp
  have sum: "\<bar>round_double (?y * 100) - ?y * 100\<bar> + \<bar>?y - x\<bar> * 100 \<le>
      (x + x * u) * 100 * u + x * u * 100"
    by (rule add_mono [OF e2' e1'])
  have eq: "(x + x * u) * 100 * u + x * u * 100 = x * 100 * (u * (2 + u))"
    by (simp add: algebra_simps)
  have "2 + u \<le> 4" using u1 by simp
  then have "u * (2 + u) \<le> u * 4" using u0 by (simp only: mult_le_cancel_left_pos)
  then have "u * (2 + u) \<le> 4 * u" by (simp only: mult.commute)
  moreover have "0 \<le> x * 100" using pos by simp
  ultimately have last: "x * 100 * (u * (2 + u)) \<le> x * 100 * (4 * u)"
    by (rule mult_left_mono)
  from tri sum have "\<bar>round_double (?y * 100) - x * 100\<bar> \<le>
      (x + x * u) * 100 * u + x * u * 100"
    by (rule order_trans)
  then have "\<bar>round_double (?y * 100) - x * 100\<bar> \<le> x * 100 * (u * (2 + u))"
    by (simp only: eq)
  from this last have "\<bar>round_double (?y * 100) - x * 100\<bar> \<le> x * 100 * (4 * u)"
    by (rule order_trans)
  then show ?thesis by (simp only: u4) simp
qed

section \<open>Dictionaries\<close>

lemma map_of_dict_set: "map_of (dict_set k v d) = (map_of d)(k \<mapsto> v)"
  by (induction d) (auto simp: fun_eq_iff)

lemma keys_dict_set: "fst ` set (dict_set k v d) = insert k (fst ` set d)"
  by (induction d) auto

lemma distinct_dict_set: "distinct (map fst d) \<Longrightarrow> distinct (map fst (dict_set k v d))"
  by (induction d) (auto simp: keys_dict_set)

lemma dict_set_fresh: "k \<notin> fst ` set d \<Longrightarrow> dict_set k v d = d @ [(k, v)]"
  by (induction d) auto

lemma dict_set_twice: "dict_set k v (dict_set k v d) = dict_set k v d"
  by (induction d) auto

lemma dict_set_fresh_again: "k \<notin> fst ` set d \<Longrightarrow> dict_set k v (d @ [(k, v)]) = d @ [(k, v)]"
  by (induction d) auto

lemma set_dict_set: "kv \<in> set (dict_set k v d) \<Longrightarrow> kv = (k, v) \<or> kv \<in> set d"
  by (induction d) (auto split: if_splits)


lemma or_str_nonempty: "now \<noteq> [] \<Longrightarrow> or_str c now \<noteq> []"
  by (simp add: or_str_def split: option.splits)

lemma Max_succ_insert:
  fixes K :: "int set"
  assumes "finite K"
  shows "Max (insert 1 ((\<lambda>k. k + 1) ` insert i K)) = max (i + 1) (Max (insert 1 ((\<lambda>k. k + 1) ` K)))"
proof -
  have "insert 1 ((\<lambda>k. k + 1) ` insert i K) = insert (i + 1) (insert 1 ((\<lambda>k. k + 1) ` K))"
    by auto
  moreover have "finite (insert 1 ((\<lambda>k. k + 1) ` K))" using assms by simp
  ultimately show ?thesis by (simp only: Max_insert [OF _ insert_not_empty])
qed

section \<open>The User registry\<close>

text \<open>What the constructor does, in one statement.\<close>

lemma User_init_result:
  "\<exists>u n. User_init nm em uid cat ps now s =
            (Inr u, \<lparr>all_users = dict_set (user_id u) u (all_users s), users_next_id = n\<rparr>) \<and>
         name u = nm \<and> email u = em \<and> u_created_at u = or_str cat now \<and>
         projects u = or_list ps [] \<and>
         (case uid of Some j \<Rightarrow> if j \<noteq> 0 then user_id u = j \<and> n = users_next_id s
                                 else user_id u = users_next_id s \<and> n = users_next_id s + 1
                    | None \<Rightarrow> user_id u = users_next_id s \<and> n = users_next_id s + 1)"
  by (cases s) (simp add: User_init_def User_get_next_id_def Let_def split: option.splits)

lemma User_from_dict_malformed:
  "\<not> User_well_formed d \<Longrightarrow> User_from_dict d now s = (Inl KeyError, s)"
  by (auto simp: User_well_formed_def User_from_dict_def split: option.splits)

lemma User_from_dict_result:
  assumes "User_well_formed d"
  shows "\<exists>u n i. d_user_id d = Some i \<and>
           User_from_dict d now s =
             (Inr u, \<lparr>all_users = dict_set (user_id u) u (all_users s), users_next_id = n\<rparr>) \<and>
           (if i \<noteq> 0 then user_id u = i \<and> n = users_next_id s
            else user_id u = users_next_id s \<and> n = users_next_id s + 1) \<and>
           u_created_at u = or_str (d_created_at d) now"
proof -
  from assms obtain nm em i where d: "d_name d = Some nm" "d_email d = Some em" "d_user_id d = Some i"
    by (auto simp: User_well_formed_def)
  let ?ps = "Some (case d_projects d of None \<Rightarrow> [] | Some ps \<Rightarrow> ps)"
  from User_init_result [of nm em "Some i" "d_created_at d" ?ps now s]
  obtain u n where
    r: "User_init nm em (Some i) (d_created_at d) ?ps now s =
            (Inr u, \<lparr>all_users = dict_set (user_id u) u (all_users s), users_next_id = n\<rparr>)" and
    c: "u_created_at u = or_str (d_created_at d) now" and
    k: "if i \<noteq> 0 then user_id u = i \<and> n = users_next_id s
        else user_id u = users_next_id s \<and> n = users_next_id s + 1"
    by auto
  have "User_from_dict d now s = User_init nm em (Some i) (d_created_at d) ?ps now s"
    using d by (simp add: User_from_dict_def)
  with r have fd: "User_from_dict d now s =
      (Inr u, \<lparr>all_users = dict_set (user_id u) u (all_users s), users_next_id = n\<rparr>)"
    by (simp only:)
  show ?thesis
    apply (rule exI [of _ u], rule exI [of _ n], rule exI [of _ i])
    using d(3) fd k c apply (intro conjI)
       apply assumption+
    done
qed

text \<open>One turn of the loop of \<open>load_all\<close> on a well-formed record.\<close>

lemma User_load_loop_Cons:
  assumes "User_well_formed d"
  shows "\<exists>u i. d_user_id d = Some i \<and>
           user_id u = (if i \<noteq> 0 then i else users_next_id s) \<and>
           u_created_at u = or_str (d_created_at d) now \<and>
           User_from_dict d now s =
             (Inr u, \<lparr>all_users = dict_set (user_id u) u (all_users s),
                      users_next_id = (if i \<noteq> 0 then users_next_id s else users_next_id s + 1)\<rparr>) \<and>
           User_load_loop (d # ds) now s =
             User_load_loop ds now
               \<lparr>all_users = dict_set (user_id u) u (all_users s),
                users_next_id = max (users_next_id s) (user_id u + 1)\<rparr>"
proof -
  from User_from_dict_result [OF assms, of now s] obtain u n i where
    i: "d_user_id d = Some i" and
    fd: "User_from_dict d now s =
             (Inr u, \<lparr>all_users = dict_set (user_id u) u (all_users s), users_next_id = n\<rparr>)" and
    n: "if i \<noteq> 0 then user_id u = i \<and> n = users_next_id s
            else user_id u = users_next_id s \<and> n = users_next_id s + 1" and
    c: "u_created_at u = or_str (d_created_at d) now"
    by blast
  have id: "user_id u = (if i \<noteq> 0 then i else users_next_id s)"
    and n': "n = (if i \<noteq> 0 then users_next_id s else users_next_id s + 1)"
    using n by (simp_all split: if_splits)
  have cnt: "(if n \<le> user_id u then user_id u + 1 else n) = max (users_next_id s) (user_id u + 1)"
    using id n' by (simp add: max_def)
  have "User_load_loop (d # ds) now s =
          User_load_loop ds now
            \<lparr>all_users = dict_set (user_id u) u (all_users s),
             users_next_id = (if n \<le> user_id u then user_id u + 1 else n)\<rparr>"
    using fd by (simp add: Let_def dict_set_twice)
  with cnt have loop: "User_load_loop (d # ds) now s =
          User_load_loop ds now
            \<lparr>all_users = dict_set (user_id u) u (all_users s),
             users_next_id = max (users_next_id s) (user_id u + 1)\<rparr>"
    by (simp only:)
  from fd n' have fd': "User_from_dict d now s =
             (Inr u, \<lparr>all_users = dict_set (user_id u) u (all_users s),
                      users_next_id = (if i \<noteq> 0 then users_next_id s else users_next_id s + 1)\<rparr>)"
    by (simp only:)
  show ?thesis
    apply (rule exI [of _ u], rule exI [of _ i])
    using i id c fd' loop apply (intro conjI)
        apply assumption+
    done
qed

lemma User_load_loop_counter:
  assumes "users_next_id s = Max (insert 1 ((\<lambda>k. k + 1) ` fst ` set (all_users s)))"
  shows "users_next_id (snd (User_load_loop ds now s)) =
           Max (insert 1 ((\<lambda>k. k + 1) ` fst ` set (all_users (snd (User_load_loop ds now s)))))"
  using assms
proof (induction ds arbitrary: s)
  case Nil
  then show ?case by simp
next
  case (Cons d ds)
  show ?case
  proof (cases "User_well_formed d")
    case False
    then show ?thesis using Cons.prems by (simp add: User_from_dict_malformed)
  next
    case True
    from User_load_loop_Cons [OF True, of s now ds] obtain u where
      step: "User_load_loop (d # ds) now s =
             User_load_loop ds now
               \<lparr>all_users = dict_set (user_id u) u (all_users s),
                users_next_id = max (users_next_id s) (user_id u + 1)\<rparr>"
      by blast
    let ?s' = "\<lparr>all_users = dict_set (user_id u) u (all_users s),
                users_next_id = max (users_next_id s) (user_id u + 1)\<rparr>"
    have fin: "finite (fst ` set (all_users s))" by simp
    have "users_next_id ?s' = max (user_id u + 1) (users_next_id s)"
      by (simp add: max.commute)
    also have "\<dots> = max (user_id u + 1) (Max (insert 1 ((\<lambda>k. k + 1) ` fst ` set (all_users s))))"
      using Cons.prems by (simp only:)
    also have "\<dots> = Max (insert 1 ((\<lambda>k. k + 1) ` insert (user_id u) (fst ` set (all_users s))))"
      by (rule Max_succ_insert [OF fin, symmetric])
    also have "insert (user_id u) (fst ` set (all_users s)) = fst ` set (all_users ?s')"
      by (simp add: keys_dict_set)
    finally have "users_next_id ?s' = Max (insert 1 ((\<lambda>k. k + 1) ` fst ` set (all_users ?s')))" .
    from Cons.IH [OF this] step show ?thesis by (simp only:)
  qed
qed

lemma User_load_loop_inv:
  assumes "P s"
    and step: "\<And>s u d i. P s \<Longrightarrow> d \<in> set ds \<Longrightarrow> d_user_id d = Some i \<Longrightarrow>
        user_id u = (if i \<noteq> 0 then i else users_next_id s) \<Longrightarrow>
        u_created_at u = or_str (d_created_at d) now \<Longrightarrow>
        P \<lparr>all_users = dict_set (user_id u) u (all_users s),
           users_next_id = max (users_next_id s) (user_id u + 1)\<rparr>"
  shows "P (snd (User_load_loop ds now s))"
  using assms
proof (induction ds arbitrary: s)
  case Nil
  then show ?case by simp
next
  case (Cons d ds)
  show ?case
  proof (cases "User_well_formed d")
    case False
    then show ?thesis using Cons.prems(1) by (simp add: User_from_dict_malformed)
  next
    case True
    from User_load_loop_Cons [OF True, of s now ds] obtain u i where
      i: "d_user_id d = Some i" and
      id: "user_id u = (if i \<noteq> 0 then i else users_next_id s)" and
      c: "u_created_at u = or_str (d_created_at d) now" and
      loop: "User_load_loop (d # ds) now s =
             User_load_loop ds now
               \<lparr>all_users = dict_set (user_id u) u (all_users s),
                users_next_id = max (users_next_id s) (user_id u + 1)\<rparr>"
      by blast
    have "P \<lparr>all_users = dict_set (user_id u) u (all_users s),
                users_next_id = max (users_next_id s) (user_id u + 1)\<rparr>"
      by (rule Cons.prems(2) [OF Cons.prems(1) _ i id c]) simp
    then have "P (snd (User_load_loop ds now
               \<lparr>all_users = dict_set (user_id u) u (all_users s),
                users_next_id = max (users_next_id s) (user_id u + 1)\<rparr>))"
      by (rule Cons.IH) (rule Cons.prems(2), simp_all)
    with loop show ?thesis by (simp only:)
  qed
qed

lemma keys_ok_dict_set:
  assumes "User_keys_ok s" and "user_id u = k"
  shows "User_keys_ok \<lparr>all_users = dict_set k u (all_users s), users_next_id = n\<rparr>"
  using assms by (auto simp: User_keys_ok_def distinct_dict_set dest: set_dict_set)

lemma storable_dict_set:
  assumes "User_storable s" and "k \<noteq> 0" and "u_created_at u \<noteq> []" and "1 \<le> n"
  shows "User_storable \<lparr>all_users = dict_set k u (all_users s), users_next_id = n\<rparr>"
  using assms by (auto simp: User_storable_def dest: set_dict_set)

lemma ids_below_dict_set:
  assumes "User_ids_below s" and "k < n" and "users_next_id s \<le> n"
  shows "User_ids_below \<lparr>all_users = dict_set k u (all_users s), users_next_id = n\<rparr>"
  using assms by (auto simp: User_ids_below_def keys_dict_set)

lemma User_load_all_initial: "User_load_all data now s = User_load_loop data now User_initial"
  by (cases s) (simp add: User_load_all_def User_initial_def)

lemma keys_ok_initial: "User_keys_ok User_initial"
  by (simp add: User_keys_ok_def User_initial_def)

lemma storable_initial: "User_storable User_initial"
  by (simp add: User_storable_def User_initial_def)

lemma ids_below_initial: "User_ids_below User_initial"
  by (simp add: User_ids_below_def User_initial_def)

lemma keys_ok_load_all: "User_keys_ok (snd (User_load_all data now s))"
  unfolding User_load_all_initial
  by (rule User_load_loop_inv [where P = User_keys_ok, OF keys_ok_initial])
     (rule keys_ok_dict_set, simp_all)

lemma ids_below_load_all: "User_ids_below (snd (User_load_all data now s))"
  unfolding User_load_all_initial
  by (rule User_load_loop_inv [where P = User_ids_below, OF ids_below_initial])
     (rule ids_below_dict_set, simp_all)

lemma storable_load_all:
  assumes "now \<noteq> []"
  shows "User_storable (snd (User_load_all data now s))"
  unfolding User_load_all_initial
proof (rule User_load_loop_inv [where P = User_storable, OF storable_initial])
  fix s :: user_registry and u :: user and d :: user_data and i :: int
  assume s: "User_storable s" and id: "user_id u = (if i \<noteq> 0 then i else users_next_id s)"
    and c: "u_created_at u = or_str (d_created_at d) now"
  from s have "1 \<le> users_next_id s" by (simp add: User_storable_def)
  with id have "user_id u \<noteq> 0" by (auto split: if_splits)
  moreover from c assms have "u_created_at u \<noteq> []" by (simp add: or_str_nonempty)
  moreover from \<open>1 \<le> users_next_id s\<close> have "1 \<le> max (users_next_id s) (user_id u + 1)" by simp
  ultimately show "User_storable \<lparr>all_users = dict_set (user_id u) u (all_users s),
           users_next_id = max (users_next_id s) (user_id u + 1)\<rparr>"
    using s by (intro storable_dict_set)
qed

lemma keys_ok_init: "User_keys_ok s \<Longrightarrow> User_keys_ok (snd (User_init nm em uid cat ps now s))"
  using User_init_result [of nm em uid cat ps now s]
  by (auto intro: keys_ok_dict_set)

lemma storable_init:
  assumes "User_storable s" and "now \<noteq> []"
  shows "User_storable (snd (User_init nm em uid cat ps now s))"
proof -
  from User_init_result [of nm em uid cat ps now s] obtain u n where
    r: "User_init nm em uid cat ps now s =
            (Inr u, \<lparr>all_users = dict_set (user_id u) u (all_users s), users_next_id = n\<rparr>)" and
    c: "u_created_at u = or_str cat now" and
    k: "case uid of Some j \<Rightarrow> if j \<noteq> 0 then user_id u = j \<and> n = users_next_id s
                                 else user_id u = users_next_id s \<and> n = users_next_id s + 1
                    | None \<Rightarrow> user_id u = users_next_id s \<and> n = users_next_id s + 1"
    by auto
  from assms(1) have one: "1 \<le> users_next_id s" by (simp add: User_storable_def)
  with k have "user_id u \<noteq> 0" and "1 \<le> n" by (auto split: option.splits if_splits)
  moreover from c assms(2) have "u_created_at u \<noteq> []" by (simp add: or_str_nonempty)
  ultimately have "User_storable \<lparr>all_users = dict_set (user_id u) u (all_users s), users_next_id = n\<rparr>"
    using assms(1) by (intro storable_dict_set)
  with r show ?thesis by simp
qed

lemma ids_below_init:
  assumes "User_ids_below s" and "uid = None \<or> uid = Some 0"
  shows "User_ids_below (snd (User_init nm em uid cat ps now s))"
proof -
  from User_init_result [of nm em uid cat ps now s] obtain u n where
    r: "User_init nm em uid cat ps now s =
            (Inr u, \<lparr>all_users = dict_set (user_id u) u (all_users s), users_next_id = n\<rparr>)" and
    k: "case uid of Some j \<Rightarrow> if j \<noteq> 0 then user_id u = j \<and> n = users_next_id s
                                 else user_id u = users_next_id s \<and> n = users_next_id s + 1
                    | None \<Rightarrow> user_id u = users_next_id s \<and> n = users_next_id s + 1"
    by auto
  from k assms(2) have "user_id u < n" and "users_next_id s \<le> n" by auto
  with assms(1) have "User_ids_below \<lparr>all_users = dict_set (user_id u) u (all_users s), users_next_id = n\<rparr>"
    by (intro ids_below_dict_set)
  with r show ?thesis by simp
qed

lemma User_update_inv:
  assumes "User_keys_ok s \<and> (A \<longrightarrow> User_storable s) \<and> (B \<longrightarrow> User_ids_below s)"
    and "\<And>u. user_id (f u) = user_id u \<and> u_created_at (f u) = u_created_at u"
  shows "User_keys_ok (User_update k f s) \<and> (A \<longrightarrow> User_storable (User_update k f s)) \<and>
         (B \<longrightarrow> User_ids_below (User_update k f s))"
proof (cases "User_find_by_id s k")
  case None
  with assms(1) show ?thesis by (simp add: User_update_def)
next
  case (Some u)
  then have mem: "(k, u) \<in> set (all_users s)"
    by (simp add: User_find_by_id_def dict_get_def map_of_SomeD)
  then have kin: "k \<in> fst ` set (all_users s)" by force
  have upd: "User_update k f s = s\<lparr>all_users := dict_set k (f u) (all_users s)\<rparr>"
    using Some by (simp add: User_update_def)
  have keys: "fst ` set (dict_set k (f u) (all_users s)) = fst ` set (all_users s)"
    using kin by (auto simp: keys_dict_set)
  have 1: "User_keys_ok (User_update k f s)"
    using assms mem unfolding upd
    by (auto simp: User_keys_ok_def distinct_dict_set dest!: set_dict_set)
  have 2: "User_storable s \<Longrightarrow> User_storable (User_update k f s)"
    using assms(2) mem unfolding upd
    by (auto simp: User_storable_def dest!: set_dict_set)
  have 3: "User_ids_below s \<Longrightarrow> User_ids_below (User_update k f s)"
    unfolding upd by (simp add: User_ids_below_def keys)
  from 1 2 3 assms(1) show ?thesis by blast
qed

lemma setters_keep_id:
  "user_id (snd (User_name_setter v u)) = user_id u \<and>
   u_created_at (snd (User_name_setter v u)) = u_created_at u"
  "user_id (snd (User_email_setter v u)) = user_id u \<and>
   u_created_at (snd (User_email_setter v u)) = u_created_at u"
  "user_id (add_project pid u) = user_id u \<and> u_created_at (add_project pid u) = u_created_at u"
  "user_id (remove_project pid u) = user_id u \<and> u_created_at (remove_project pid u) = u_created_at u"
  by (simp_all add: User_name_setter_def User_email_setter_def add_project_def remove_project_def)

lemma User_step_inv:
  assumes "User_keys_ok s \<and> (A \<longrightarrow> User_storable s) \<and> (B \<longrightarrow> User_ids_below s)"
    and "A \<longrightarrow> user_clock_ok op" and "B \<longrightarrow> \<not> user_explicit_id op"
  shows "User_keys_ok (User_step op s) \<and> (A \<longrightarrow> User_storable (User_step op s)) \<and>
         (B \<longrightarrow> User_ids_below (User_step op s))"
proof (cases op)
  case (UConstruct nm em uid cat ps now)
  have "B \<longrightarrow> uid = None \<or> uid = Some 0"
    using assms(3) UConstruct by (cases uid) auto
  then show ?thesis using assms UConstruct
    by (auto intro: keys_ok_init storable_init ids_below_init)
next
  case (UCreate nm em now)
  then show ?thesis using assms
    by (auto simp: User_create_def intro: keys_ok_init storable_init ids_below_init)
next
  case (ULoadAll data now)
  then show ?thesis using assms
    by (auto intro: keys_ok_load_all storable_load_all ids_below_load_all)
next
  case (USetName k v)
  then show ?thesis using User_update_inv [OF assms(1), of "\<lambda>u. snd (User_name_setter v u)" k]
    by (simp add: setters_keep_id)
next
  case (USetEmail k v)
  then show ?thesis using User_update_inv [OF assms(1), of "\<lambda>u. snd (User_email_setter v u)" k]
    by (simp add: setters_keep_id)
next
  case (UAddProject k pid)
  then show ?thesis using User_update_inv [OF assms(1), of "add_project pid" k]
    by (simp add: setters_keep_id)
next
  case (URemoveProject k pid)
  then show ?thesis using User_update_inv [OF assms(1), of "remove_project pid" k]
    by (simp add: setters_keep_id)
qed

lemma User_fold_inv:
  assumes "User_keys_ok s \<and> (A \<longrightarrow> User_storable s) \<and> (B \<longrightarrow> User_ids_below s)"
    and "A \<longrightarrow> (\<forall>op \<in> set ops. user_clock_ok op)"
    and "B \<longrightarrow> (\<forall>op \<in> set ops. \<not> user_explicit_id op)"
  shows "User_keys_ok (fold User_step ops s) \<and> (A \<longrightarrow> User_storable (fold User_step ops s)) \<and>
         (B \<longrightarrow> User_ids_below (fold User_step ops s))"
  using assms
proof (induction ops arbitrary: s)
  case Nil
  then show ?case by simp
next
  case (Cons op ops)
  have "User_keys_ok (User_step op s) \<and> (A \<longrightarrow> User_storable (User_step op s)) \<and>
         (B \<longrightarrow> User_ids_below (User_step op s))"
    by (rule User_step_inv) (use Cons.prems in auto)
  from Cons.IH [OF this] Cons.prems show ?case by simp
qed

lemma User_run_inv:
  "User_keys_ok (User_run ops)"
  "\<forall>op \<in> set ops. user_clock_ok op \<Longrightarrow> User_storable (User_run ops)"
  "\<forall>op \<in> set ops. \<not> user_explicit_id op \<Longrightarrow> User_ids_below (User_run ops)"
  using User_fold_inv [of User_initial False False ops]
    User_fold_inv [of User_initial True False ops]
    User_fold_inv [of User_initial False True ops]
  by (simp_all add: User_run_def keys_ok_initial storable_initial ids_below_initial)

lemma user_fields: "\<lparr>user_id = user_id u, name = name u, email = email u,
    u_created_at = u_created_at u, projects = projects u\<rparr> = u"
  by (cases u) simp

lemma User_from_dict_to_dict:
  assumes "user_id u \<noteq> 0" and "u_created_at u \<noteq> []"
  shows "User_from_dict (User_to_dict u) now s =
           (Inr u, s\<lparr>all_users := dict_set (user_id u) u (all_users s)\<rparr>)"
  using assms
  by (simp add: User_from_dict_def User_to_dict_def User_init_def or_str_def or_list_def Let_def
      user_fields)

lemma User_load_loop_saved:
  assumes "distinct (map fst es)"
    and "\<forall>(k, u) \<in> set es. user_id u = k \<and> k \<noteq> 0 \<and> u_created_at u \<noteq> []"
    and "fst ` set es \<inter> fst ` set (all_users s) = {}"
  shows "fst (User_load_loop (map User_to_dict (map snd es)) now s) = Inr () \<and>
         all_users (snd (User_load_loop (map User_to_dict (map snd es)) now s)) = all_users s @ es"
  using assms
proof (induction es arbitrary: s)
  case Nil
  then show ?case by simp
next
  case (Cons e es)
  obtain k u where e: "e = (k, u)" by (cases e)
  from Cons.prems(2) e have u: "user_id u = k" "k \<noteq> 0" "u_created_at u \<noteq> []" by auto
  from Cons.prems(3) e have fresh: "k \<notin> fst ` set (all_users s)" by auto
  let ?s' = "(if users_next_id s \<le> k
              then s\<lparr>all_users := all_users s @ [(k, u)], users_next_id := k + 1\<rparr>
              else s\<lparr>all_users := all_users s @ [(k, u)]\<rparr>)"
  have reg: "all_users ?s' = all_users s @ [(k, u)]" by simp
  have step: "User_load_loop (map User_to_dict (map snd (e # es))) now s =
              User_load_loop (map User_to_dict (map snd es)) now ?s'"
    using u e by (simp add: User_from_dict_to_dict dict_set_fresh [OF fresh]
        dict_set_fresh_again [OF fresh] Let_def)
  have d: "distinct (map fst es)" using Cons.prems(1) by simp
  have a: "\<forall>(k, u) \<in> set es. user_id u = k \<and> k \<noteq> 0 \<and> u_created_at u \<noteq> []"
    using Cons.prems(2) by simp
  have disj: "fst ` set es \<inter> fst ` set (all_users ?s') = {}"
    using Cons.prems(1,3) e unfolding reg by auto
  have ih: "fst (User_load_loop (map User_to_dict (map snd es)) now ?s') = Inr () \<and>
      all_users (snd (User_load_loop (map User_to_dict (map snd es)) now ?s'))
        = (all_users s @ [(k, u)]) @ es"
    using Cons.IH [OF d a disj] by (simp only: reg)
  show ?case
    by (simp only: step ih) (simp add: e)
qed

lemma User_round_trip:
  assumes "User_keys_ok s" and "User_storable s"
  shows "fst (User_load_all (User_records s) now s0) = Inr () \<and>
         all_users (snd (User_load_all (User_records s) now s0)) = all_users s"
proof -
  have "fst (User_load_loop (map User_to_dict (map snd (all_users s))) now User_initial) = Inr () \<and>
        all_users (snd (User_load_loop (map User_to_dict (map snd (all_users s))) now User_initial))
          = all_users User_initial @ all_users s"
    by (rule User_load_loop_saved)
       (use assms in \<open>auto simp: User_keys_ok_def User_storable_def User_initial_def\<close>)
  then show ?thesis
    by (simp add: User_load_all_initial User_records_def dict_values_def User_initial_def)
qed

lemma User_round_trip_ops:
  assumes "\<forall>op \<in> set ops. user_clock_ok op"
  shows "fst (User_load_all (User_records (User_run ops)) now s0) = Inr () \<and>
         all_users (snd (User_load_all (User_records (User_run ops)) now s0)) = all_users (User_run ops)"
  by (rule User_round_trip [OF User_run_inv(1) User_run_inv(2) [OF assms]])

lemma User_load_loop_keys:
  assumes "\<forall>d \<in> set ds. User_well_formed d \<and> d_user_id d \<noteq> Some 0"
  shows "fst ` set (all_users (snd (User_load_loop ds now s))) =
           fst ` set (all_users s) \<union> {i. Some i \<in> d_user_id ` set ds}"
  using assms
proof (induction ds arbitrary: s)
  case Nil
  then show ?case by simp
next
  case (Cons d ds)
  from Cons.prems have wf: "User_well_formed d" and nz: "d_user_id d \<noteq> Some 0" by simp_all
  from User_load_loop_Cons [OF wf, of s now ds] obtain u i where
    i: "d_user_id d = Some i" and
    ui: "user_id u = (if i \<noteq> 0 then i else users_next_id s)" and
    loop: "User_load_loop (d # ds) now s =
             User_load_loop ds now
               \<lparr>all_users = dict_set (user_id u) u (all_users s),
                users_next_id = max (users_next_id s) (user_id u + 1)\<rparr>"
    by blast
  from nz i have "i \<noteq> 0" by simp
  with i ui have id: "d_user_id d = Some (user_id u)" by simp
  from Cons.prems have rest: "\<forall>d \<in> set ds. User_well_formed d \<and> d_user_id d \<noteq> Some 0" by simp
  have "{i. Some i \<in> d_user_id ` set (d # ds)} = insert (user_id u) {i. Some i \<in> d_user_id ` set ds}"
    using id by auto
  then show ?case
    unfolding loop using Cons.IH [OF rest] by (simp add: keys_dict_set)
qed

lemma User_load_loop_append:
  "User_load_loop (pre @ rest) now s =
     (case User_load_loop pre now s of
        (Inl e, s') \<Rightarrow> (Inl e, s')
      | (Inr _, s') \<Rightarrow> User_load_loop rest now s')"
  by (induction pre arbitrary: s) (auto simp: Let_def split: prod.splits sum.splits)

lemma User_load_all_stops:
  assumes "fst (User_load_all pre now s) = Inr ()" and "\<not> User_well_formed bad"
  shows "User_load_all (pre @ bad # post) now s = (Inl KeyError, snd (User_load_all pre now s))"
  using assms
  by (auto simp: User_load_all_initial User_load_loop_append User_from_dict_malformed
      split: prod.splits sum.splits)

lemma User_load_all_counter:
  "User_load_all data now s = User_load_all data now User_initial \<and>
   users_next_id (snd (User_load_all data now s)) =
     Max (insert 1 ((\<lambda>k. k + 1) ` fst ` set (all_users (snd (User_load_all data now s))))) \<and>
   ((\<forall>d \<in> set data. User_well_formed d \<and> d_user_id d \<noteq> Some 0) \<longrightarrow>
      fst (User_load_all data now s) = Inr () \<and>
      fst ` set (all_users (snd (User_load_all data now s))) = {i. Some i \<in> d_user_id ` set data}) \<and>
   (\<exists>u s'. User_create nm em now' (snd (User_load_all data now s)) = (Inr u, s') \<and>
            user_id u = users_next_id (snd (User_load_all data now s)))"
proof -
  have a: "User_load_all data now s = User_load_all data now User_initial"
    by (simp add: User_load_all_initial)
  have b: "users_next_id (snd (User_load_all data now s)) =
     Max (insert 1 ((\<lambda>k. k + 1) ` fst ` set (all_users (snd (User_load_all data now s)))))"
    unfolding User_load_all_initial
    by (rule User_load_loop_counter) (simp add: User_initial_def)
  have c: "(\<forall>d \<in> set data. User_well_formed d \<and> d_user_id d \<noteq> Some 0) \<longrightarrow>
      fst (User_load_all data now s) = Inr () \<and>
      fst ` set (all_users (snd (User_load_all data now s))) = {i. Some i \<in> d_user_id ` set data}"
  proof
    assume wf: "\<forall>d \<in> set data. User_well_formed d \<and> d_user_id d \<noteq> Some 0"
    have ok: "fst (User_load_loop ds now t) = Inr ()" if "\<forall>d \<in> set ds. User_well_formed d" for ds t
      using that
    proof (induction ds arbitrary: t)
      case Nil
      then show ?case by simp
    next
      case (Cons d ds)
      then have "User_well_formed d" by simp
      from User_load_loop_Cons [OF this, of t now ds] Cons show ?case by auto
    qed
    from wf have "fst (User_load_loop data now User_initial) = Inr ()" by (intro ok) simp
    with User_load_loop_keys [OF wf, of now User_initial]
    show "fst (User_load_all data now s) = Inr () \<and>
      fst ` set (all_users (snd (User_load_all data now s))) = {i. Some i \<in> d_user_id ` set data}"
      by (simp add: User_load_all_initial User_initial_def)
  qed
  have d: "\<exists>u s'. User_create nm em now' (snd (User_load_all data now s)) = (Inr u, s') \<and>
            user_id u = users_next_id (snd (User_load_all data now s))"
    using User_init_result [of nm em None None None now' "snd (User_load_all data now s)"]
    by (auto simp: User_create_def)
  from a b c d show ?thesis by blast
qed

lemma User_load_all_keys:
  assumes "\<forall>d \<in> set pre. User_well_formed d \<and> d_user_id d \<noteq> Some 0"
  shows "fst (User_load_all pre now s) = Inr () \<and>
         fst ` set (all_users (snd (User_load_all pre now s))) = {i. Some i \<in> d_user_id ` set pre}"
  using User_load_all_counter [of pre now s] assms by blast












text \<open>The definitions that evaluate a concrete run.\<close>

lemmas user_eval = User_load_all_def User_from_dict_def User_init_def User_get_next_id_def
  User_create_def User_initial_def user_record_def malformed_record_def or_str_def or_list_def
  Let_def User_find_by_id_def dict_get_def User_run_def

section \<open>The Task registry\<close>

lemma Task_storable_initial: "Task_storable Task_initial"
  by (simp add: Task_storable_def Task_initial_def)

lemma Task_storable_dict_set:
  assumes "Task_storable s" and "task_id t = k" and "k \<noteq> 0" and "t_created_at t \<noteq> []"
    and "status t \<in> set VALID_STATUSES" and "1 \<le> n"
  shows "Task_storable \<lparr>all_tasks = dict_set k t (all_tasks s), tasks_next_id = n\<rparr>"
  using assms by (auto simp: Task_storable_def distinct_dict_set dest!: set_dict_set)

lemma Task_storable_counter:
  assumes "Task_storable s" and "1 \<le> n"
  shows "Task_storable (s\<lparr>tasks_next_id := n\<rparr>)"
  using assms by (simp add: Task_storable_def)

lemma Task_init_auto:
  assumes "tid = None \<or> tid = Some 0"
  shows "Task_init ti de pid tid st au cat now s =
    (if st \<in> set VALID_STATUSES
     then (Inr \<lparr>task_id = tasks_next_id s, t_title = ti, t_description = de, status = st,
                t_project_id = pid, assigned_users = or_list au [],
                t_created_at = or_str cat now\<rparr>,
           \<lparr>all_tasks = dict_set (tasks_next_id s)
                \<lparr>task_id = tasks_next_id s, t_title = ti, t_description = de, status = st,
                 t_project_id = pid, assigned_users = or_list au [],
                 t_created_at = or_str cat now\<rparr> (all_tasks s),
            tasks_next_id = tasks_next_id s + 1\<rparr>)
     else (Inl ValueError, s\<lparr>tasks_next_id := tasks_next_id s + 1\<rparr>))"
  using assms by (auto simp: Task_init_def Task_get_next_id_def Let_def)

lemma Task_init_explicit:
  assumes "tid = Some j" and "j \<noteq> 0"
  shows "Task_init ti de pid tid st au cat now s =
    (if st \<in> set VALID_STATUSES
     then (Inr \<lparr>task_id = j, t_title = ti, t_description = de, status = st,
                t_project_id = pid, assigned_users = or_list au [],
                t_created_at = or_str cat now\<rparr>,
           \<lparr>all_tasks = dict_set j
                \<lparr>task_id = j, t_title = ti, t_description = de, status = st,
                 t_project_id = pid, assigned_users = or_list au [],
                 t_created_at = or_str cat now\<rparr> (all_tasks s),
            tasks_next_id = tasks_next_id s\<rparr>)
     else (Inl ValueError, s))"
  using assms by (auto simp: Task_init_def Task_get_next_id_def Let_def)

lemma Task_init_storable:
  assumes "Task_storable s" and "now \<noteq> []"
  shows "Task_storable (snd (Task_init ti de pid tid st au cat now s))"
proof -
  from assms(1) have one: "1 \<le> tasks_next_id s" by (simp add: Task_storable_def)
  show ?thesis
  proof (cases "tid = None \<or> tid = Some 0")
    case True
    show ?thesis
      unfolding Task_init_auto [OF True]
      using assms one
      by (auto intro!: Task_storable_dict_set Task_storable_counter simp: or_str_nonempty)
  next
    case False
    then obtain j where j: "tid = Some j" "j \<noteq> 0" by auto
    show ?thesis
      unfolding Task_init_explicit [OF j]
      using assms one j
      by (auto intro!: Task_storable_dict_set simp: or_str_nonempty)
  qed
qed

lemma Task_init_registers:
  assumes "Task_init ti de pid tid st au cat now s = (Inr t, s1)"
  shows "all_tasks s1 = dict_set (task_id t) t (all_tasks s)"
proof (cases "tid = None \<or> tid = Some 0")
  case True
  from assms show ?thesis
    unfolding Task_init_auto [OF True] by (auto split: if_splits)
next
  case False
  then obtain j where j: "tid = Some j" "j \<noteq> 0" by auto
  from assms show ?thesis
    unfolding Task_init_explicit [OF j] by (auto split: if_splits)
qed

lemma Task_from_dict_storable:
  assumes "Task_storable s" and "now \<noteq> []"
  shows "Task_storable (snd (Task_from_dict d now s))"
  using assms by (auto simp: Task_from_dict_def Task_init_storable split: option.splits)

lemma Task_from_dict_registers:
  assumes "Task_from_dict d now s = (Inr t, s1)"
  shows "all_tasks s1 = dict_set (task_id t) t (all_tasks s)"
  using assms by (auto simp: Task_from_dict_def Task_init_registers split: option.splits)

lemma Task_load_loop_storable:
  assumes "Task_storable s" and "now \<noteq> []"
  shows "Task_storable (snd (Task_load_loop ds now s))"
  using assms(1)
proof (induction ds arbitrary: s)
  case Nil
  then show ?case by simp
next
  case (Cons d ds)
  obtain r s1 where fd: "Task_from_dict d now s = (r, s1)" by (cases "Task_from_dict d now s")
  from Task_from_dict_storable [OF Cons.prems assms(2), of d] fd
  have s1: "Task_storable s1" by simp
  show ?case
  proof (cases r)
    case (Inl e)
    with fd s1 show ?thesis by simp
  next
    case (Inr t)
    with fd have reg: "all_tasks s1 = dict_set (task_id t) t (all_tasks s)"
      by (simp add: Task_from_dict_registers)
    have same: "s1\<lparr>all_tasks := dict_set (task_id t) t (all_tasks s1)\<rparr> = s1"
      by (simp add: reg dict_set_twice)
    from s1 have one: "1 \<le> tasks_next_id s1" by (simp add: Task_storable_def)
    let ?s3 = "(if tasks_next_id s1 \<le> task_id t then s1\<lparr>tasks_next_id := task_id t + 1\<rparr> else s1)"
    have step: "Task_load_loop (d # ds) now s = Task_load_loop ds now ?s3"
      using fd Inr same by (simp add: Let_def)
    have "Task_storable ?s3"
      using s1 one by (auto intro: Task_storable_counter)
    from Cons.IH [OF this] show ?thesis unfolding step .
  qed
qed

lemma Task_load_all_initial: "Task_load_all data now s = Task_load_loop data now Task_initial"
  by (cases s) (simp add: Task_load_all_def Task_initial_def)

lemma Task_update_storable:
  assumes "Task_storable s"
    and "\<And>t. task_id (f t) = task_id t \<and> t_created_at (f t) = t_created_at t \<and>
           (status t \<in> set VALID_STATUSES \<longrightarrow> status (f t) \<in> set VALID_STATUSES)"
  shows "Task_storable (Task_update k f s)"
proof (cases "Task_find_by_id s k")
  case None
  with assms(1) show ?thesis by (simp add: Task_update_def)
next
  case (Some t)
  then have mem: "(k, t) \<in> set (all_tasks s)"
    by (simp add: Task_find_by_id_def dict_get_def map_of_SomeD)
  have upd: "Task_update k f s = s\<lparr>all_tasks := dict_set k (f t) (all_tasks s)\<rparr>"
    using Some by (simp add: Task_update_def)
  show ?thesis
    using assms mem unfolding upd
    by (auto simp: Task_storable_def distinct_dict_set dest!: set_dict_set)
qed

lemma Task_setters_keep:
  "task_id (snd (Task_title_setter v t)) = task_id t \<and>
   t_created_at (snd (Task_title_setter v t)) = t_created_at t \<and>
   (status t \<in> set VALID_STATUSES \<longrightarrow> status (snd (Task_title_setter v t)) \<in> set VALID_STATUSES)"
  "task_id (snd (Task_description_setter v t)) = task_id t \<and>
   t_created_at (snd (Task_description_setter v t)) = t_created_at t \<and>
   (status t \<in> set VALID_STATUSES \<longrightarrow> status (snd (Task_description_setter v t)) \<in> set VALID_STATUSES)"
  "task_id (snd (Task_status_setter v t)) = task_id t \<and>
   t_created_at (snd (Task_status_setter v t)) = t_created_at t \<and>
   (status t \<in> set VALID_STATUSES \<longrightarrow> status (snd (Task_status_setter v t)) \<in> set VALID_STATUSES)"
  "task_id (snd (mark_complete t)) = task_id t \<and>
   t_created_at (snd (mark_complete t)) = t_created_at t \<and>
   (status t \<in> set VALID_STATUSES \<longrightarrow> status (snd (mark_complete t)) \<in> set VALID_STATUSES)"
  "task_id (assign_user uid t) = task_id t \<and>
   t_created_at (assign_user uid t) = t_created_at t \<and>
   (status t \<in> set VALID_STATUSES \<longrightarrow> status (assign_user uid t) \<in> set VALID_STATUSES)"
  "task_id (unassign_user uid t) = task_id t \<and>
   t_created_at (unassign_user uid t) = t_created_at t \<and>
   (status t \<in> set VALID_STATUSES \<longrightarrow> status (unassign_user uid t) \<in> set VALID_STATUSES)"
  by (simp_all add: Task_title_setter_def Task_description_setter_def Task_status_setter_def
      mark_complete_def assign_user_def unassign_user_def)

lemma Task_step_storable:
  assumes "Task_storable s" and "task_clock_ok op"
  shows "Task_storable (Task_step op s)"
proof (cases op)
  case (TConstruct ti de pid tid st au cat now)
  then show ?thesis using assms by (simp add: Task_init_storable)
next
  case (TCreate ti de pid now)
  then show ?thesis using assms by (simp add: Task_create_def Task_init_storable)
next
  case (TLoadAll data now)
  then show ?thesis using assms
    by (simp add: Task_load_all_initial Task_load_loop_storable Task_storable_initial)
next
  case (TSetTitle k v)
  then show ?thesis
    using Task_update_storable [OF assms(1), of "\<lambda>t. snd (Task_title_setter v t)" k]
    by (simp add: Task_setters_keep)
next
  case (TSetDescription k v)
  then show ?thesis
    using Task_update_storable [OF assms(1), of "\<lambda>t. snd (Task_description_setter v t)" k]
    by (simp add: Task_setters_keep)
next
  case (TSetStatus k v)
  then show ?thesis
    using Task_update_storable [OF assms(1), of "\<lambda>t. snd (Task_status_setter v t)" k]
    by (simp add: Task_setters_keep)
next
  case (TMarkComplete k)
  then show ?thesis
    using Task_update_storable [OF assms(1), of "\<lambda>t. snd (mark_complete t)" k]
    by (simp add: Task_setters_keep)
next
  case (TAssignUser k uid)
  then show ?thesis
    using Task_update_storable [OF assms(1), of "assign_user uid" k]
    by (simp add: Task_setters_keep)
next
  case (TUnassignUser k uid)
  then show ?thesis
    using Task_update_storable [OF assms(1), of "unassign_user uid" k]
    by (simp add: Task_setters_keep)
qed

lemma Task_fold_storable:
  assumes "Task_storable s" and "\<forall>op \<in> set ops. task_clock_ok op"
  shows "Task_storable (fold Task_step ops s)"
  using assms
  by (induction ops arbitrary: s) (simp_all add: Task_step_storable)

lemma task_fields: "\<lparr>task_id = task_id t, t_title = t_title t, t_description = t_description t,
    status = status t, t_project_id = t_project_id t, assigned_users = assigned_users t,
    t_created_at = t_created_at t\<rparr> = t"
  by (cases t) simp

lemma Task_from_dict_to_dict:
  assumes "task_id t \<noteq> 0" and "t_created_at t \<noteq> []" and "status t \<in> set VALID_STATUSES"
  shows "Task_from_dict (Task_to_dict t) now s =
           (Inr t, s\<lparr>all_tasks := dict_set (task_id t) t (all_tasks s)\<rparr>)"
  using assms
  by (simp add: Task_from_dict_def Task_to_dict_def Task_init_def or_str_def or_list_def Let_def
      task_fields)

lemma Task_load_loop_saved:
  assumes "distinct (map fst es)"
    and "\<forall>(k, t) \<in> set es. task_id t = k \<and> k \<noteq> 0 \<and> t_created_at t \<noteq> [] \<and>
           status t \<in> set VALID_STATUSES"
    and "fst ` set es \<inter> fst ` set (all_tasks s) = {}"
  shows "fst (Task_load_loop (map Task_to_dict (map snd es)) now s) = Inr () \<and>
         all_tasks (snd (Task_load_loop (map Task_to_dict (map snd es)) now s)) = all_tasks s @ es"
  using assms
proof (induction es arbitrary: s)
  case Nil
  then show ?case by simp
next
  case (Cons e es)
  obtain k t where e: "e = (k, t)" by (cases e)
  from Cons.prems(2) e have t: "task_id t = k" "k \<noteq> 0" "t_created_at t \<noteq> []"
    "status t \<in> set VALID_STATUSES" by auto
  from Cons.prems(3) e have fresh: "k \<notin> fst ` set (all_tasks s)" by auto
  let ?s' = "(if tasks_next_id s \<le> k
              then s\<lparr>all_tasks := all_tasks s @ [(k, t)], tasks_next_id := k + 1\<rparr>
              else s\<lparr>all_tasks := all_tasks s @ [(k, t)]\<rparr>)"
  have reg: "all_tasks ?s' = all_tasks s @ [(k, t)]" by simp
  have step: "Task_load_loop (map Task_to_dict (map snd (e # es))) now s =
              Task_load_loop (map Task_to_dict (map snd es)) now ?s'"
    using t e by (simp add: Task_from_dict_to_dict dict_set_fresh [OF fresh]
        dict_set_fresh_again [OF fresh] Let_def)
  have d: "distinct (map fst es)" using Cons.prems(1) by simp
  have a: "\<forall>(k, t) \<in> set es. task_id t = k \<and> k \<noteq> 0 \<and> t_created_at t \<noteq> [] \<and>
           status t \<in> set VALID_STATUSES"
    using Cons.prems(2) by simp
  have disj: "fst ` set es \<inter> fst ` set (all_tasks ?s') = {}"
    using Cons.prems(1,3) e unfolding reg by auto
  have ih: "fst (Task_load_loop (map Task_to_dict (map snd es)) now ?s') = Inr () \<and>
      all_tasks (snd (Task_load_loop (map Task_to_dict (map snd es)) now ?s'))
        = (all_tasks s @ [(k, t)]) @ es"
    using Cons.IH [OF d a disj] by (simp only: reg)
  show ?case
    by (simp only: step ih) (simp add: e)
qed

lemma Task_round_trip_ops:
  assumes "\<forall>op \<in> set ops. task_clock_ok op"
  shows "fst (Task_load_all (Task_records (Task_run ops)) now s0) = Inr () \<and>
         all_tasks (snd (Task_load_all (Task_records (Task_run ops)) now s0)) = all_tasks (Task_run ops)"
proof -
  have st: "Task_storable (Task_run ops)"
    unfolding Task_run_def by (rule Task_fold_storable [OF Task_storable_initial assms])
  have "fst (Task_load_loop (map Task_to_dict (map snd (all_tasks (Task_run ops)))) now Task_initial)
          = Inr () \<and>
        all_tasks (snd (Task_load_loop (map Task_to_dict (map snd (all_tasks (Task_run ops)))) now
          Task_initial)) = all_tasks Task_initial @ all_tasks (Task_run ops)"
    by (rule Task_load_loop_saved)
       (use st in \<open>auto simp: Task_storable_def Task_initial_def\<close>)
  then show ?thesis
    by (simp add: Task_load_all_initial Task_records_def dict_values_def Task_initial_def)
qed






lemma Task_from_dict_malformed:
  "\<not> Task_well_formed d \<Longrightarrow> Task_from_dict d now s = (Inl KeyError, s)"
  by (auto simp: Task_well_formed_def Task_from_dict_def split: option.splits)

lemma Task_load_loop_append:
  "Task_load_loop (pre @ rest) now s =
     (case Task_load_loop pre now s of
        (Inl e, s') \<Rightarrow> (Inl e, s')
      | (Inr _, s') \<Rightarrow> Task_load_loop rest now s')"
  by (induction pre arbitrary: s) (auto simp: Let_def split: prod.splits sum.splits)












lemma Task_load_all_stops:
  assumes "fst (Task_load_all pre now s) = Inr ()" and "\<not> Task_well_formed bad"
  shows "Task_load_all (pre @ bad # post) now s = (Inl KeyError, snd (Task_load_all pre now s))"
  using assms
  by (auto simp: Task_load_all_initial Task_load_loop_append Task_from_dict_malformed
      split: prod.splits sum.splits)




















section \<open>The Project registry\<close>

lemma Project_storable_initial: "Project_storable Project_initial"
  by (simp add: Project_storable_def Project_initial_def)

lemma Project_storable_dict_set:
  assumes "Project_storable s" and "project_id p = k" and "k \<noteq> 0" and "p_created_at p \<noteq> []"
    and "1 \<le> n"
  shows "Project_storable \<lparr>all_projects = dict_set k p (all_projects s), projects_next_id = n\<rparr>"
  using assms by (auto simp: Project_storable_def distinct_dict_set dest!: set_dict_set)

lemma Project_storable_counter:
  assumes "Project_storable s" and "1 \<le> n"
  shows "Project_storable (s\<lparr>projects_next_id := n\<rparr>)"
  using assms by (simp add: Project_storable_def)

lemma Project_init_auto:
  assumes "pid = None \<or> pid = Some 0"
  shows "Project_init parse ti de dd uid pid ts cat now s =
    (case parse dd of
       Inl e \<Rightarrow> (Inl e, s\<lparr>projects_next_id := projects_next_id s + 1\<rparr>)
     | Inr dt \<Rightarrow>
        (Inr \<lparr>project_id = projects_next_id s, p_title = ti, p_description = de, due_date = dt,
              p_user_id = uid, tasks = or_list ts [], p_created_at = or_str cat now\<rparr>,
         \<lparr>all_projects = dict_set (projects_next_id s)
              \<lparr>project_id = projects_next_id s, p_title = ti, p_description = de, due_date = dt,
               p_user_id = uid, tasks = or_list ts [], p_created_at = or_str cat now\<rparr>
              (all_projects s),
          projects_next_id = projects_next_id s + 1\<rparr>))"
  using assms by (auto simp: Project_init_def Project_get_next_id_def Let_def split: option.splits sum.splits)

lemma Project_init_explicit:
  assumes "pid = Some j" and "j \<noteq> 0"
  shows "Project_init parse ti de dd uid pid ts cat now s =
    (case parse dd of
       Inl e \<Rightarrow> (Inl e, s)
     | Inr dt \<Rightarrow>
        (Inr \<lparr>project_id = j, p_title = ti, p_description = de, due_date = dt,
              p_user_id = uid, tasks = or_list ts [], p_created_at = or_str cat now\<rparr>,
         \<lparr>all_projects = dict_set j
              \<lparr>project_id = j, p_title = ti, p_description = de, due_date = dt,
               p_user_id = uid, tasks = or_list ts [], p_created_at = or_str cat now\<rparr>
              (all_projects s),
          projects_next_id = projects_next_id s\<rparr>))"
  using assms by (auto simp: Project_init_def Project_get_next_id_def Let_def split: option.splits sum.splits)

lemma Project_init_storable:
  assumes "Project_storable s" and "now \<noteq> []"
  shows "Project_storable (snd (Project_init parse ti de dd uid pid ts cat now s))"
proof -
  from assms(1) have one: "1 \<le> projects_next_id s" by (simp add: Project_storable_def)
  show ?thesis
  proof (cases "pid = None \<or> pid = Some 0")
    case True
    show ?thesis
      unfolding Project_init_auto [OF True]
      using assms one
      by (auto intro!: Project_storable_dict_set Project_storable_counter
          simp: or_str_nonempty split: option.splits sum.splits)
  next
    case False
    then obtain j where j: "pid = Some j" "j \<noteq> 0" by auto
    show ?thesis
      unfolding Project_init_explicit [OF j]
      using assms one j
      by (auto intro!: Project_storable_dict_set simp: or_str_nonempty split: option.splits sum.splits)
  qed
qed

lemma Project_init_registers:
  assumes "Project_init parse ti de dd uid pid ts cat now s = (Inr p, s1)"
  shows "all_projects s1 = dict_set (project_id p) p (all_projects s)"
proof (cases "pid = None \<or> pid = Some 0")
  case True
  from assms show ?thesis
    unfolding Project_init_auto [OF True] by (auto split: option.splits sum.splits)
next
  case False
  then obtain j where j: "pid = Some j" "j \<noteq> 0" by auto
  from assms show ?thesis
    unfolding Project_init_explicit [OF j] by (auto split: option.splits sum.splits)
qed

lemma Project_from_dict_storable:
  assumes "Project_storable s" and "now \<noteq> []"
  shows "Project_storable (snd (Project_from_dict parse d now s))"
  using assms by (auto simp: Project_from_dict_def Project_init_storable split: option.splits sum.splits)

lemma Project_from_dict_registers:
  assumes "Project_from_dict parse d now s = (Inr p, s1)"
  shows "all_projects s1 = dict_set (project_id p) p (all_projects s)"
  using assms by (auto simp: Project_from_dict_def Project_init_registers split: option.splits sum.splits)

lemma Project_load_loop_storable:
  assumes "Project_storable s" and "now \<noteq> []"
  shows "Project_storable (snd (Project_load_loop parse ds now s))"
  using assms(1)
proof (induction ds arbitrary: s)
  case Nil
  then show ?case by simp
next
  case (Cons d ds)
  obtain r s1 where fd: "Project_from_dict parse d now s = (r, s1)"
    by (cases "Project_from_dict parse d now s")
  from Project_from_dict_storable [OF Cons.prems assms(2), of parse d] fd
  have s1: "Project_storable s1" by simp
  show ?case
  proof (cases r)
    case (Inl e)
    with fd s1 show ?thesis by simp
  next
    case (Inr p)
    with fd have reg: "all_projects s1 = dict_set (project_id p) p (all_projects s)"
      by (simp add: Project_from_dict_registers)
    have same: "s1\<lparr>all_projects := dict_set (project_id p) p (all_projects s1)\<rparr> = s1"
      by (simp add: reg dict_set_twice)
    from s1 have one: "1 \<le> projects_next_id s1" by (simp add: Project_storable_def)
    let ?s3 = "(if projects_next_id s1 \<le> project_id p
                then s1\<lparr>projects_next_id := project_id p + 1\<rparr> else s1)"
    have step: "Project_load_loop parse (d # ds) now s = Project_load_loop parse ds now ?s3"
      using fd Inr same by (simp add: Let_def)
    have "Project_storable ?s3"
      using s1 one by (auto intro: Project_storable_counter)
    from Cons.IH [OF this] show ?thesis unfolding step .
  qed
qed

lemma Project_load_all_initial:
  "Project_load_all parse data now s = Project_load_loop parse data now Project_initial"
  by (cases s) (simp add: Project_load_all_def Project_initial_def)

lemma Project_update_storable:
  assumes "Project_storable s"
    and "\<And>p. project_id (f p) = project_id p \<and> p_created_at (f p) = p_created_at p"
  shows "Project_storable (Project_update k f s)"
proof (cases "Project_find_by_id s k")
  case None
  with assms(1) show ?thesis by (simp add: Project_update_def)
next
  case (Some p)
  then have mem: "(k, p) \<in> set (all_projects s)"
    by (simp add: Project_find_by_id_def dict_get_def map_of_SomeD)
  have upd: "Project_update k f s = s\<lparr>all_projects := dict_set k (f p) (all_projects s)\<rparr>"
    using Some by (simp add: Project_update_def)
  show ?thesis
    using assms mem unfolding upd
    by (auto simp: Project_storable_def distinct_dict_set dest!: set_dict_set)
qed

lemma Project_setters_keep:
  "project_id (snd (Project_title_setter v p)) = project_id p \<and>
   p_created_at (snd (Project_title_setter v p)) = p_created_at p"
  "project_id (snd (Project_description_setter v p)) = project_id p \<and>
   p_created_at (snd (Project_description_setter v p)) = p_created_at p"
  "project_id (snd (Project_due_date_setter parse v p)) = project_id p \<and>
   p_created_at (snd (Project_due_date_setter parse v p)) = p_created_at p"
  "project_id (add_task tid p) = project_id p \<and> p_created_at (add_task tid p) = p_created_at p"
  "project_id (remove_task tid p) = project_id p \<and> p_created_at (remove_task tid p) = p_created_at p"
  by (simp_all add: Project_title_setter_def Project_description_setter_def
      Project_due_date_setter_def add_task_def remove_task_def split: option.splits sum.splits)

lemma Project_step_storable:
  assumes "Project_storable s" and "project_clock_ok op"
  shows "Project_storable (Project_step parse op s)"
proof (cases op)
  case (PConstruct ti de dd uid pid ts cat now)
  then show ?thesis using assms by (simp add: Project_init_storable)
next
  case (PCreate ti de dd uid now)
  then show ?thesis using assms by (simp add: Project_create_def Project_init_storable)
next
  case (PLoadAll data now)
  then show ?thesis using assms
    by (simp add: Project_load_all_initial Project_load_loop_storable Project_storable_initial)
next
  case (PSetTitle k v)
  then show ?thesis
    using Project_update_storable [OF assms(1), of "\<lambda>p. snd (Project_title_setter v p)" k]
    by (simp add: Project_setters_keep)
next
  case (PSetDescription k v)
  then show ?thesis
    using Project_update_storable [OF assms(1), of "\<lambda>p. snd (Project_description_setter v p)" k]
    by (simp add: Project_setters_keep)
next
  case (PSetDueDate k v)
  then show ?thesis
    using Project_update_storable [OF assms(1), of "\<lambda>p. snd (Project_due_date_setter parse v p)" k]
    by (simp add: Project_setters_keep)
next
  case (PAddTask k tid)
  then show ?thesis
    using Project_update_storable [OF assms(1), of "add_task tid" k]
    by (simp add: Project_setters_keep)
next
  case (PRemoveTask k tid)
  then show ?thesis
    using Project_update_storable [OF assms(1), of "remove_task tid" k]
    by (simp add: Project_setters_keep)
qed

lemma Project_fold_storable:
  assumes "Project_storable s" and "\<forall>op \<in> set ops. project_clock_ok op"
  shows "Project_storable (fold (Project_step parse) ops s)"
  using assms
  by (induction ops arbitrary: s) (simp_all add: Project_step_storable)

lemma project_fields: "\<lparr>project_id = project_id p, p_title = p_title p,
    p_description = p_description p, due_date = due_date p, p_user_id = p_user_id p,
    tasks = tasks p, p_created_at = p_created_at p\<rparr> = p"
  by (cases p) simp

lemma Project_to_dict_Inr:
  "Project_to_dict isoformat p = Inr r \<longleftrightarrow>
     (\<exists>dd. isoformat (due_date p) = Inr dd \<and>
        r = \<lparr>d_project_id = Some (project_id p), d_p_title = Some (p_title p),
             d_p_description = Some (p_description p), d_due_date = Some dd,
             d_p_user_id = Some (p_user_id p), d_tasks = Some (tasks p),
             d_p_created_at = Some (p_created_at p)\<rparr>)"
  by (auto simp: Project_to_dict_def split: sum.splits)

lemma Project_from_dict_to_dict:
  assumes "project_id p \<noteq> 0" and "p_created_at p \<noteq> []"
    and "Project_to_dict isoformat p = Inr r"
    and "\<exists>dd. isoformat (due_date p) = Inr dd \<and> parse dd = Inr (due_date p)"
  shows "Project_from_dict parse r now s =
           (Inr p, s\<lparr>all_projects := dict_set (project_id p) p (all_projects s)\<rparr>)"
  using assms
  by (auto simp: Project_to_dict_Inr Project_from_dict_def Project_init_def or_str_def
      or_list_def Let_def project_fields)

lemma map_raising_Inr:
  "map_raising f xs = Inr ys \<longleftrightarrow> list_all2 (\<lambda>x y. f x = Inr y) xs ys"
proof (induction xs arbitrary: ys)
  case Nil
  then show ?case by auto
next
  case (Cons x xs)
  show ?case
    by (auto simp: list_all2_Cons1 Cons.IH [symmetric] split: sum.splits)
qed

lemma list_all2_source:
  assumes "list_all2 P xs ys" and "y \<in> set ys"
  shows "\<exists>x \<in> set xs. P x y"
  using assms by (induction rule: list_all2_induct) auto

lemma Project_load_loop_saved:
  assumes "distinct (map fst es)"
    and "\<forall>(k, p) \<in> set es. project_id p = k \<and> k \<noteq> 0 \<and> p_created_at p \<noteq> []"
    and "fst ` set es \<inter> fst ` set (all_projects s) = {}"
    and "list_all2 (\<lambda>e r. Project_to_dict isoformat (snd e) = Inr r) es rs"
    and "\<forall>(k, p) \<in> set es. \<exists>dd. isoformat (due_date p) = Inr dd \<and> parse dd = Inr (due_date p)"
  shows "fst (Project_load_loop parse rs now s) = Inr () \<and>
         all_projects (snd (Project_load_loop parse rs now s)) = all_projects s @ es"
  using assms
proof (induction es arbitrary: s rs)
  case Nil
  then show ?case by simp
next
  case (Cons e es)
  obtain k p where e: "e = (k, p)" by (cases e)
  from Cons.prems(4) obtain r rs' where rs: "rs = r # rs'"
    and r: "Project_to_dict isoformat (snd e) = Inr r"
    and rest: "list_all2 (\<lambda>e r. Project_to_dict isoformat (snd e) = Inr r) es rs'"
    by (auto simp: list_all2_Cons1)
  from Cons.prems(2) e have p: "project_id p = k" "k \<noteq> 0" "p_created_at p \<noteq> []" by auto
  from Cons.prems(5) e
  have rt: "\<exists>dd. isoformat (due_date p) = Inr dd \<and> parse dd = Inr (due_date p)" by auto
  from Cons.prems(3) e have fresh: "k \<notin> fst ` set (all_projects s)" by auto
  let ?s' = "(if projects_next_id s \<le> k
              then s\<lparr>all_projects := all_projects s @ [(k, p)], projects_next_id := k + 1\<rparr>
              else s\<lparr>all_projects := all_projects s @ [(k, p)]\<rparr>)"
  have reg: "all_projects ?s' = all_projects s @ [(k, p)]" by simp
  have fd: "Project_from_dict parse r now s =
      (Inr p, s\<lparr>all_projects := dict_set (project_id p) p (all_projects s)\<rparr>)"
    by (rule Project_from_dict_to_dict [where isoformat = isoformat]) (use p r e rt in auto)
  have step: "Project_load_loop parse rs now s = Project_load_loop parse rs' now ?s'"
    using p by (simp add: rs fd dict_set_fresh [OF fresh] dict_set_fresh_again [OF fresh] Let_def)
  have d: "distinct (map fst es)" using Cons.prems(1) by simp
  have a: "\<forall>(k, p) \<in> set es. project_id p = k \<and> k \<noteq> 0 \<and> p_created_at p \<noteq> []"
    using Cons.prems(2) by simp
  have c: "\<forall>(k, p) \<in> set es. \<exists>dd. isoformat (due_date p) = Inr dd \<and> parse dd = Inr (due_date p)"
    using Cons.prems(5) by simp
  have disj: "fst ` set es \<inter> fst ` set (all_projects ?s') = {}"
    using Cons.prems(1,3) e unfolding reg by auto
  have ih: "fst (Project_load_loop parse rs' now ?s') = Inr () \<and>
      all_projects (snd (Project_load_loop parse rs' now ?s')) = (all_projects s @ [(k, p)]) @ es"
    using Cons.IH [OF d a disj rest c] by (simp only: reg)
  show ?case
    by (simp only: step ih) (simp add: e)
qed

lemma Project_init_Inr:
  assumes "Project_init parse ti de dd uid pid ts cat now s = (Inr p, s1)"
  shows "all_projects s1 = dict_set (project_id p) p (all_projects s) \<and>
         (if pid = None \<or> pid = Some 0
          then project_id p = projects_next_id s \<and> projects_next_id s1 = projects_next_id s + 1
          else pid = Some (project_id p) \<and> projects_next_id s1 = projects_next_id s)"
proof (cases "pid = None \<or> pid = Some 0")
  case True
  from assms show ?thesis
    unfolding Project_init_auto [OF True] using True by (auto split: option.splits sum.splits)
next
  case False
  then obtain j where j: "pid = Some j" "j \<noteq> 0" by auto
  from assms show ?thesis
    unfolding Project_init_explicit [OF j] using j by (auto split: option.splits sum.splits)
qed

lemma Project_init_Inl:
  assumes "Project_init parse ti de dd uid pid ts cat now s = (Inl e, s1)"
  shows "all_projects s1 = all_projects s \<and>
         (projects_next_id s1 = projects_next_id s \<or> projects_next_id s1 = projects_next_id s + 1)"
proof (cases "pid = None \<or> pid = Some 0")
  case True
  from assms show ?thesis
    unfolding Project_init_auto [OF True] by (auto split: option.splits sum.splits)
next
  case False
  then obtain j where j: "pid = Some j" "j \<noteq> 0" by auto
  from assms show ?thesis
    unfolding Project_init_explicit [OF j] by (auto split: option.splits sum.splits)
qed

lemma Project_from_dict_Inr:
  assumes "Project_from_dict parse d now s = (Inr p, s1)"
  shows "all_projects s1 = dict_set (project_id p) p (all_projects s) \<and>
         (if d_project_id d = Some 0
          then project_id p = projects_next_id s \<and> projects_next_id s1 = projects_next_id s + 1
          else d_project_id d = Some (project_id p) \<and> projects_next_id s1 = projects_next_id s)"
  using assms
  by (auto simp: Project_from_dict_def split: option.splits dest!: Project_init_Inr)

lemma Project_from_dict_Inl:
  assumes "Project_from_dict parse d now s = (Inl e, s1)"
  shows "all_projects s1 = all_projects s \<and>
         (projects_next_id s1 = projects_next_id s \<or> projects_next_id s1 = projects_next_id s + 1)"
  using assms
  by (auto simp: Project_from_dict_def split: option.splits dest!: Project_init_Inl)

lemma Project_load_loop_Cons:
  assumes "Project_from_dict parse d now s = (Inr p, s1)"
  shows "Project_load_loop parse (d # ds) now s =
           Project_load_loop parse ds now
             \<lparr>all_projects = dict_set (project_id p) p (all_projects s),
              projects_next_id = max (projects_next_id s) (project_id p + 1)\<rparr>"
proof -
  from Project_from_dict_Inr [OF assms]
  have reg: "all_projects s1 = dict_set (project_id p) p (all_projects s)"
    and cnt: "(if projects_next_id s1 \<le> project_id p then project_id p + 1 else projects_next_id s1)
                = max (projects_next_id s) (project_id p + 1)"
    by (auto simp: max_def split: if_splits)
  have "(if projects_next_id s1 \<le> project_id p
         then s1\<lparr>all_projects := dict_set (project_id p) p (all_projects s1),
                 projects_next_id := project_id p + 1\<rparr>
         else s1\<lparr>all_projects := dict_set (project_id p) p (all_projects s1)\<rparr>) =
        \<lparr>all_projects = dict_set (project_id p) p (all_projects s),
         projects_next_id = max (projects_next_id s) (project_id p + 1)\<rparr>"
    using cnt reg by (cases s1) (auto simp: dict_set_twice)
  then show ?thesis
    using assms by (auto simp: Let_def split: if_splits)
qed

lemma Project_from_dict_malformed:
  "\<not> Project_well_formed d \<Longrightarrow> Project_from_dict parse d now s = (Inl KeyError, s)"
  by (auto simp: Project_well_formed_def Project_from_dict_def split: option.splits sum.splits)

lemma Project_load_loop_append:
  "Project_load_loop parse (pre @ rest) now s =
     (case Project_load_loop parse pre now s of
        (Inl e, s') \<Rightarrow> (Inl e, s')
      | (Inr _, s') \<Rightarrow> Project_load_loop parse rest now s')"
  by (induction pre arbitrary: s) (auto simp: Let_def split: prod.splits sum.splits)












lemma Project_load_all_stops:
  assumes "fst (Project_load_all parse pre now s) = Inr ()" and "\<not> Project_well_formed bad"
  shows "Project_load_all parse (pre @ bad # post) now s =
           (Inl KeyError, snd (Project_load_all parse pre now s))"
  using assms
  by (auto simp: Project_load_all_initial Project_load_loop_append Project_from_dict_malformed
      split: prod.splits sum.splits)




















section \<open>Validation\<close>

text \<open>
  C1 as stated fails: \<open>User('A', 'a@b.c')\<close> returns a user named A and registers it.
\<close>

theorem user_init_short_name_counterexample:
  "User_init ''A'' ''a@b.c'' None None None ''2024-01-01T00:00:00'' User_initial =
     (Inr \<lparr>user_id = 1, name = ''A'', email = ''a@b.c'',
            u_created_at = ''2024-01-01T00:00:00'', projects = []\<rparr>,
      \<lparr>all_users = [(1, \<lparr>user_id = 1, name = ''A'', email = ''a@b.c'',
            u_created_at = ''2024-01-01T00:00:00'', projects = []\<rparr>)],
       users_next_id = 2\<rparr>)"
  by (simp add: User_init_def User_initial_def User_get_next_id_def or_str_def or_list_def Let_def)

lemma strip_A: "strip ''A'' = ''A''"
  by (simp add: strip_def isspace_def)

lemma strip_Al: "strip ''Al'' = ''Al''"
  by (simp add: strip_def isspace_def)

lemma strip_Nil: "strip [] = []"
  by (simp add: strip_def)

text \<open>
  C1, as amended. The User constructor and the factory never raise and validate
  nothing: whatever the name and the email, the user is built with them and registered
  under its id. The length of the name is checked by the name setter only: it raises
  ValueError and leaves the user as it was exactly when the stripped value has fewer
  than 2 characters (as on A), and otherwise stores the stripped value (as on Al). The
  fields a constructor does check are the status of a Task and the due date of a
  Project: a Task constructor raises ValueError exactly on a status outside
  \<open>VALID_STATUSES\<close>, and a Project constructor raises exactly when the date parser
  raises, with the parser's own exception, which need not be a ValueError.
\<close>

theorem user_validation_in_setter_only:
  "(\<exists>u s'. User_init nm em uid cat ps now s = (Inr u, s') \<and> name u = nm \<and> email u = em \<and>
            User_find_by_id s' (user_id u) = Some u) \<and>
   (\<exists>u s'. User_create nm em now s = (Inr u, s') \<and> name u = nm \<and> email u = em \<and>
            User_find_by_id s' (user_id u) = Some u) \<and>
   (length (strip v) < 2 \<longrightarrow> User_name_setter v u = (Inl ValueError, u)) \<and>
   (2 \<le> length (strip v) \<longrightarrow> User_name_setter v u = (Inr (), u\<lparr>name := strip v\<rparr>)) \<and>
   User_name_setter ''A'' u = (Inl ValueError, u) \<and>
   User_name_setter ''Al'' u = (Inr (), u\<lparr>name := ''Al''\<rparr>) \<and>
   (st \<notin> set VALID_STATUSES \<longrightarrow>
      fst (Task_init ti de pid tid st au tcat now ts) = Inl ValueError) \<and>
   (st \<in> set VALID_STATUSES \<longrightarrow>
      (\<exists>t. fst (Task_init ti de pid tid st au tcat now ts) = Inr t)) \<and>
   (\<forall>e. parse dd = Inl e \<longrightarrow>
      fst (Project_init parse pti pde dd puid pid' tks pcat now sp) = Inl e) \<and>
   (\<forall>dt. parse dd = Inr dt \<longrightarrow>
      (\<exists>p. fst (Project_init parse pti pde dd puid pid' tks pcat now sp) = Inr p \<and>
           due_date p = dt))"
proof -
  have user: "(\<exists>u s'. User_init nm em uid cat ps now s = (Inr u, s') \<and> name u = nm \<and>
            email u = em \<and> User_find_by_id s' (user_id u) = Some u) \<and>
   (\<exists>u s'. User_create nm em now s = (Inr u, s') \<and> name u = nm \<and> email u = em \<and>
            User_find_by_id s' (user_id u) = Some u)"
    by (simp add: User_create_def User_init_def User_get_next_id_def User_find_by_id_def
        dict_get_def map_of_dict_set Let_def split: prod.splits option.splits)
  have short: "length (strip v) < 2 \<longrightarrow> User_name_setter v u = (Inl ValueError, u)"
    by (simp add: User_name_setter_def)
  have long: "2 \<le> length (strip v) \<longrightarrow> User_name_setter v u = (Inr (), u\<lparr>name := strip v\<rparr>)"
    by (auto simp: User_name_setter_def strip_Nil)
  have lits: "User_name_setter ''A'' u = (Inl ValueError, u) \<and>
      User_name_setter ''Al'' u = (Inr (), u\<lparr>name := ''Al''\<rparr>)"
    by (simp add: User_name_setter_def strip_A strip_Al)
  have task: "(st \<notin> set VALID_STATUSES \<longrightarrow>
      fst (Task_init ti de pid tid st au tcat now ts) = Inl ValueError) \<and>
   (st \<in> set VALID_STATUSES \<longrightarrow>
      (\<exists>t. fst (Task_init ti de pid tid st au tcat now ts) = Inr t))"
    by (auto simp: Task_init_def Let_def split: prod.splits option.splits)
  have proj: "(\<forall>e. parse dd = Inl e \<longrightarrow>
      fst (Project_init parse pti pde dd puid pid' tks pcat now sp) = Inl e) \<and>
   (\<forall>dt. parse dd = Inr dt \<longrightarrow>
      (\<exists>p. fst (Project_init parse pti pde dd puid pid' tks pcat now sp) = Inr p \<and>
           due_date p = dt))"
    by (auto simp: Project_init_def Let_def split: prod.splits option.splits)
  show ?thesis
    using user short long lits task proj by (intro conjI) blast+
qed

theorem user_validation_in_setter_only_witness:
  "User_name_setter ''  A  '' example_user = (Inl ValueError, example_user) \<and>
   fst (Task_init ''T'' ''D'' 1 None ''bogus'' None None ''2024-01-01T00:00:00'' Task_initial)
     = Inl ValueError \<and>
   fst (Project_init example_parse ''P'' ''D'' ''invalid-date'' 1 None None None
          ''2024-01-01T00:00:00'' Project_initial) = Inl ValueError \<and>
   fst (Project_init example_parse ''P'' ''D'' ''99999999999999999999'' 1 None None None
          ''2024-01-01T00:00:00'' Project_initial) = Inl OverflowError \<and>
   (\<exists>p. fst (Project_init example_parse ''P'' ''D'' ''2099-01-01'' 1 None None None
          ''2024-01-01T00:00:00'' Project_initial) = Inr p)"
proof -
  have n: "length (strip ''  A  '') < 2"
    by (simp add: strip_def isspace_def)
  have a: "''bogus'' \<notin> set VALID_STATUSES"
    by (simp add: VALID_STATUSES_def)
  have b: "example_parse ''invalid-date'' = Inl ValueError"
    by (simp add: example_parse_def)
  have o: "example_parse ''99999999999999999999'' = Inl OverflowError"
    by (simp add: example_parse_def)
  have c: "example_parse ''2099-01-01'' = Inr ''2099-01-01''"
    by (simp add: example_parse_def)
  note inst1 = user_validation_in_setter_only [where v = "''  A  ''" and u = example_user
      and st = "''bogus''" and parse = example_parse
      and dd = "''invalid-date''" and ti = "''T''" and de = "''D''" and pid = 1 and tid = None
      and au = None and tcat = None and now = "''2024-01-01T00:00:00''" and ts = Task_initial
      and pti = "''P''" and pde = "''D''" and puid = 1 and pid' = None and tks = None
      and pcat = None and sp = Project_initial]
  note inst2 = user_validation_in_setter_only [where parse = example_parse
      and dd = "''99999999999999999999''" and now = "''2024-01-01T00:00:00''"
      and pti = "''P''" and pde = "''D''" and puid = 1 and pid' = None and tks = None
      and pcat = None and sp = Project_initial]
  note inst3 = user_validation_in_setter_only [where parse = example_parse
      and dd = "''2099-01-01''" and now = "''2024-01-01T00:00:00''"
      and pti = "''P''" and pde = "''D''" and puid = 1 and pid' = None and tks = None
      and pcat = None and sp = Project_initial]
  from inst1 n
  have n1: "User_name_setter ''  A  '' example_user = (Inl ValueError, example_user)"
    by blast
  from inst1 a
  have t1: "fst (Task_init ''T'' ''D'' 1 None ''bogus'' None None ''2024-01-01T00:00:00''
      Task_initial) = Inl ValueError"
    by blast
  from inst1 b
  have p1: "fst (Project_init example_parse ''P'' ''D'' ''invalid-date'' 1 None None None
          ''2024-01-01T00:00:00'' Project_initial) = Inl ValueError"
    by blast
  from inst2 o
  have p2: "fst (Project_init example_parse ''P'' ''D'' ''99999999999999999999'' 1 None None None
          ''2024-01-01T00:00:00'' Project_initial) = Inl OverflowError"
    by blast
  from inst3 c
  have p3: "\<exists>p. fst (Project_init example_parse ''P'' ''D'' ''2099-01-01'' 1 None None None
          ''2024-01-01T00:00:00'' Project_initial) = Inr p"
    by blast
  from n1 t1 p1 p2 p3 show ?thesis by (intro conjI)
qed

section \<open>Completion percentage\<close>

lemma float_one_of_two: "float_mul (int_truediv (Suc 0) (Suc (Suc 0))) 100 = 50"
  by code_simp

lemma float_one_of_one: "float_mul (int_truediv (Suc 0) (Suc 0)) 100 = 100"
  by code_simp

lemma float_eleven_of_twenty: "round_double (round_double (11 / 20) * 100) = 55 + 1 / 2 ^ 47"
  by code_simp

text \<open>
  C2 as stated fails: with the task ids 5 and 6 listed, 5 resolving to a completed task
  and 6 not resolving, the code returns 50.0 where the claim's formula gives 100.0.
\<close>

theorem completion_percentage_counterexample:
  "get_completion_percentage example_project example_tasks = 50 \<and>
   spec_completion_percentage example_project example_tasks = 100"
  by (simp add: get_completion_percentage_def spec_completion_percentage_def example_project_def
      example_tasks_def example_task_def Task_find_by_id_def dict_get_def
      float_one_of_two float_one_of_one)

lemma sum_list_ones: "sum_list (map (\<lambda>_. Suc 0) xs) = length xs"
  by (induction xs) auto

lemma completed_pred_eq:
  "(case Task_find_by_id ts tid of None \<Rightarrow> False | Some t \<Rightarrow> status t = ''completed'')
     = (\<exists>t. Task_find_by_id ts tid = Some t \<and> status t = ''completed'')"
  by (cases "Task_find_by_id ts tid") auto

lemma completion_formula:
  "get_completion_percentage p ts =
     (if tasks p = [] then 0
      else round_double (round_double
             (of_nat (length (filter (\<lambda>tid. \<exists>t. Task_find_by_id ts tid = Some t \<and>
                                       status t = ''completed'') (tasks p)))
              / of_nat (length (tasks p))) * 100))"
  by (simp add: get_completion_percentage_def sum_list_ones completed_pred_eq Let_def
      float_mul_def int_truediv_def)

lemma completion_bounds:
  "0 \<le> get_completion_percentage p ts \<and> get_completion_percentage p ts \<le> 100"
proof (cases "tasks p = []")
  case True
  then show ?thesis by (simp add: get_completion_percentage_def)
next
  case False
  let ?c = "length (filter (\<lambda>tid. \<exists>t. Task_find_by_id ts tid = Some t \<and>
                                       status t = ''completed'') (tasks p))"
  let ?n = "length (tasks p)"
  have le: "?c \<le> ?n" by (rule length_filter_le)
  have pos: "0 < ?n" using False by simp
  have "(of_nat ?c :: rat) \<le> of_nat ?n" using le by (simp only: of_nat_le_iff)
  then have one: "(of_nat ?c :: rat) / of_nat ?n \<le> 1" using pos by (simp add: divide_le_eq)
  have zero: "0 \<le> (of_nat ?c :: rat) / of_nat ?n" by simp
  from round_double_unit [OF zero one]
  have y: "0 \<le> round_double (of_nat ?c / of_nat ?n)" "round_double (of_nat ?c / of_nat ?n) \<le> 1"
    by simp_all
  have "get_completion_percentage p ts = round_double (round_double (of_nat ?c / of_nat ?n) * 100)"
    using False by (simp add: completion_formula)
  with round_double_percent [OF y] show ?thesis by (simp only:)
qed

lemma completion_error:
  assumes "length (tasks p) < 2 ^ 63"
  shows "\<bar>get_completion_percentage p ts -
      of_nat (length (filter (\<lambda>tid. \<exists>t. Task_find_by_id ts tid = Some t \<and>
                                  status t = ''completed'') (tasks p)))
        / of_nat (length (tasks p)) * 100\<bar>
    \<le> of_nat (length (filter (\<lambda>tid. \<exists>t. Task_find_by_id ts tid = Some t \<and>
                                  status t = ''completed'') (tasks p)))
        / of_nat (length (tasks p)) * 100 / 2 ^ 51"
proof -
  let ?c = "length (filter (\<lambda>tid. \<exists>t. Task_find_by_id ts tid = Some t \<and>
                                       status t = ''completed'') (tasks p))"
  let ?n = "length (tasks p)"
  let ?x = "of_nat ?c / of_nat ?n :: rat"
  show "\<bar>get_completion_percentage p ts - ?x * 100\<bar> \<le> ?x * 100 / 2 ^ 51"
  proof (cases "?c = 0")
    case True
    then have "get_completion_percentage p ts = 0"
      by (simp only: completion_formula) (simp add: round_double_def)
    with True show ?thesis by simp
  next
    case False
    then have c: "1 \<le> ?c" by linarith
    have "?c \<le> ?n" by (rule length_filter_le)
    with c have n: "0 < ?n" by linarith
    then have ne: "tasks p \<noteq> []" by simp
    have "(of_nat ?n :: rat) < of_nat (2 ^ 63)" using assms by (simp only: of_nat_less_iff)
    then have nb: "(of_nat ?n :: rat) \<le> 2 ^ 63" by simp
    have npos: "(0::rat) < of_nat ?n" using n by simp
    have "(power_int 2 (- 1022) :: rat) \<le> power_int 2 (- 63)"
      by (rule power_int_increasing) simp_all
    also have "\<dots> = 1 / 2 ^ 63" by (simp add: power_int_minus field_simps)
    also have "\<dots> \<le> 1 / of_nat ?n" using nb npos by (simp add: frac_le)
    also have "\<dots> \<le> ?x"
    proof -
      have "(1::rat) \<le> of_nat ?c" using c by simp
      then show ?thesis using npos by (simp add: divide_right_mono)
    qed
    finally have big: "power_int 2 (- 1022) \<le> ?x" .
    have "get_completion_percentage p ts = round_double (round_double ?x * 100)"
      using ne by (simp add: completion_formula)
    with twice_rounded_err [OF big] show ?thesis by (simp only:)
  qed
qed

lemma completion_agrees_when_resolving:
  assumes "\<forall>tid \<in> set (tasks p). Task_find_by_id ts tid \<noteq> None"
  shows "get_completion_percentage p ts = spec_completion_percentage p ts"
proof -
  have "filter (\<lambda>tid. Task_find_by_id ts tid \<noteq> None) (tasks p) = tasks p"
    using assms by (simp add: filter_id_conv)
  then show ?thesis
    by (simp add: get_completion_percentage_def spec_completion_percentage_def sum_list_ones Let_def)
qed

text \<open>
  The result is not always the double nearest to the exact percentage: with 11 of 20
  listed ids completed it is \<open>55 + 2 ^ -47\<close>, which Python prints as 55.00000000000001.
\<close>

lemma example20_counts:
  "length (filter (\<lambda>tid. \<exists>t. Task_find_by_id example_tasks11 tid = Some t \<and>
             status t = ''completed'') (tasks example_project20)) = 11"
  "length (tasks example_project20) = 20"
  by (simp_all add: example_project20_def example_tasks11_def example_project_def
      example_task_def Task_find_by_id_def dict_get_def)

lemma completion_percentage_inexact:
  "get_completion_percentage example_project20 example_tasks11 = 55 + 1 / 2 ^ 47"
proof -
  have "tasks example_project20 \<noteq> []" by (simp add: example_project20_def)
  then have "get_completion_percentage example_project20 example_tasks11 =
      round_double (round_double (of_nat 11 / of_nat 20) * 100)"
    by (simp only: completion_formula example20_counts if_False)
  then show ?thesis by (simp add: float_eleven_of_twenty)
qed

text \<open>
  C2, as amended. The result is 0.0 for an empty task list and otherwise the float
  \<open>(c / n) * 100\<close>, where \<open>c\<close> is the number of listed ids that resolve to a completed
  task and \<open>n\<close> is the length of the list: an id that does not resolve is not counted
  as completed but is counted in the total. Both the quotient and the product are
  rounded to a double, so the result is a double between 0 and 100 that differs from
  the exact percentage by at most the fraction \<open>2 ^ -51\<close> of it (for a list of fewer
  than \<open>2 ^ 63\<close> ids, which every Python list is). It is the value of the claim's
  formula whenever every listed id resolves.
\<close>

theorem completion_percentage_counts_all_ids:
  "get_completion_percentage p ts =
     (if tasks p = [] then 0
      else round_double (round_double
             (of_nat (length (filter (\<lambda>tid. \<exists>t. Task_find_by_id ts tid = Some t \<and>
                                       status t = ''completed'') (tasks p)))
              / of_nat (length (tasks p))) * 100)) \<and>
   0 \<le> get_completion_percentage p ts \<and> get_completion_percentage p ts \<le> 100 \<and>
   (length (tasks p) < 2 ^ 63 \<longrightarrow>
      \<bar>get_completion_percentage p ts -
         of_nat (length (filter (\<lambda>tid. \<exists>t. Task_find_by_id ts tid = Some t \<and>
                                     status t = ''completed'') (tasks p)))
           / of_nat (length (tasks p)) * 100\<bar>
       \<le> of_nat (length (filter (\<lambda>tid. \<exists>t. Task_find_by_id ts tid = Some t \<and>
                                     status t = ''completed'') (tasks p)))
           / of_nat (length (tasks p)) * 100 / 2 ^ 51) \<and>
   ((\<forall>tid \<in> set (tasks p). Task_find_by_id ts tid \<noteq> None) \<longrightarrow>
      get_completion_percentage p ts = spec_completion_percentage p ts)"
  using completion_formula [of p ts] completion_bounds [of p ts]
    completion_error [of p ts] completion_agrees_when_resolving [of p ts]
  by (intro conjI) blast+

theorem completion_percentage_counts_all_ids_witness:
  "get_completion_percentage example_project example_tasks2 = 50 \<and>
   spec_completion_percentage example_project example_tasks2 = 50 \<and>
   get_completion_percentage (example_project\<lparr>tasks := []\<rparr>) example_tasks2 = 0 \<and>
   \<bar>get_completion_percentage example_project20 example_tasks11 - 55\<bar> \<le> 55 / 2 ^ 51"
proof -
  have res: "\<forall>tid \<in> set (tasks example_project). Task_find_by_id example_tasks2 tid \<noteq> None"
    by (simp add: example_project_def example_tasks2_def Task_find_by_id_def dict_get_def)
  have v: "spec_completion_percentage example_project example_tasks2 = 50"
    by (simp add: spec_completion_percentage_def example_project_def
      example_tasks2_def example_task_def Task_find_by_id_def dict_get_def float_one_of_two)
  from completion_percentage_counts_all_ids [of example_project example_tasks2] res
  have a: "get_completion_percentage example_project example_tasks2
          = spec_completion_percentage example_project example_tasks2"
    by blast
  from completion_percentage_counts_all_ids [of "example_project\<lparr>tasks := []\<rparr>" example_tasks2]
  have b: "get_completion_percentage (example_project\<lparr>tasks := []\<rparr>) example_tasks2 = 0"
    by simp
  have len: "length (tasks example_project20) < 2 ^ 63"
    by (simp add: example_project20_def)
  have cnt: "of_nat (length (filter (\<lambda>tid. \<exists>t. Task_find_by_id example_tasks11 tid = Some t \<and>
                 status t = ''completed'') (tasks example_project20)))
           / of_nat (length (tasks example_project20)) * 100 = (55::rat)"
    by (simp add: example20_counts)
  from completion_percentage_counts_all_ids [of example_project20 example_tasks11] len
  have c: "\<bar>get_completion_percentage example_project20 example_tasks11 - 55\<bar> \<le> 55 / 2 ^ 51"
    unfolding cnt by blast
  from a b c v show ?thesis by simp
qed

section \<open>Loading a registry\<close>

text \<open>
  C3 as stated fails: loading a good record, a malformed one and another good one into
  the initial registry raises KeyError and leaves the first record registered.
\<close>

theorem load_all_partial_counterexample:
  "User_load_all [user_record 1 ''Ana'', malformed_record, user_record 3 ''Cy''] ''t'' User_initial =
     (Inl KeyError,
      \<lparr>all_users = [(1, \<lparr>user_id = 1, name = ''Ana'', email = ''x@y.z'',
                         u_created_at = ''2024-01-01T00:00:00'', projects = []\<rparr>)],
       users_next_id = 2\<rparr>)"
  by (simp add: user_eval)

text \<open>
  C3, as amended. When the records before a malformed one load, \<open>load_all\<close> raises
  KeyError at the malformed record and loads nothing after it. It has no rollback: the
  registry was cleared before the loop, and the state that is left is the state of a
  successful load of the records before the malformed one. For users, records that are
  well formed with ids other than 0 always load, and the registry then holds exactly
  their ids.
\<close>

theorem load_all_stops_at_malformed_record:
  "(fst (User_load_all pre now s) = Inr () \<and> \<not> User_well_formed bad \<longrightarrow>
      User_load_all (pre @ bad # post) now s = (Inl KeyError, snd (User_load_all pre now s))) \<and>
   ((\<forall>d \<in> set pre. User_well_formed d \<and> d_user_id d \<noteq> Some 0) \<longrightarrow>
      fst (User_load_all pre now s) = Inr () \<and>
      fst ` set (all_users (snd (User_load_all pre now s))) = {i. Some i \<in> d_user_id ` set pre}) \<and>
   (fst (Task_load_all tpre now st) = Inr () \<and> \<not> Task_well_formed tbad \<longrightarrow>
      Task_load_all (tpre @ tbad # tpost) now st
        = (Inl KeyError, snd (Task_load_all tpre now st))) \<and>
   (fst (Project_load_all parse ppre now sp) = Inr () \<and> \<not> Project_well_formed pbad \<longrightarrow>
      Project_load_all parse (ppre @ pbad # ppost) now sp
        = (Inl KeyError, snd (Project_load_all parse ppre now sp)))"
  using User_load_all_stops [of pre now s bad post] User_load_all_keys [of pre now s]
    Task_load_all_stops [of tpre now st tbad tpost]
    Project_load_all_stops [of parse ppre now sp pbad ppost]
  by blast

theorem load_all_stops_at_malformed_record_witness:
  "User_load_all [user_record 1 ''Ana'', malformed_record, user_record 3 ''Cy''] ''t'' User_initial
     = (Inl KeyError, snd (User_load_all [user_record 1 ''Ana''] ''t'' User_initial)) \<and>
   fst ` set (all_users (snd (User_load_all [user_record 1 ''Ana''] ''t'' User_initial))) = {1}"
proof -
  have pre: "\<forall>d \<in> set [user_record 1 ''Ana'']. User_well_formed d \<and> d_user_id d \<noteq> Some 0"
    by (simp add: user_record_def User_well_formed_def)
  have bad: "\<not> User_well_formed malformed_record"
    by (simp add: malformed_record_def User_well_formed_def)
  have ids: "{i. Some i \<in> d_user_id ` set [user_record 1 ''Ana'']} = {1}"
    by (auto simp: user_record_def)
  note inst = load_all_stops_at_malformed_record [where pre = "[user_record 1 ''Ana'']"
      and bad = malformed_record and post = "[user_record 3 ''Cy'']" and now = "''t''"
      and s = User_initial]
  from inst pre have ok: "fst (User_load_all [user_record 1 ''Ana''] ''t'' User_initial) = Inr ()"
    and keys: "fst ` set (all_users (snd (User_load_all [user_record 1 ''Ana''] ''t'' User_initial)))
      = {1}"
    unfolding ids by blast+
  from inst ok bad
  have "User_load_all ([user_record 1 ''Ana''] @ malformed_record # [user_record 3 ''Cy''])
      ''t'' User_initial
     = (Inl KeyError, snd (User_load_all [user_record 1 ''Ana''] ''t'' User_initial))"
    by blast
  with keys show ?thesis by simp
qed

section \<open>Saving and loading again\<close>

lemma int_max_str_pos: "0 < int_max_str"
  unfolding int_max_str_def by (rule zero_less_power) simp

lemma int_max_str_small: "\<bar>i\<bar> < 10 \<Longrightarrow> \<bar>i\<bar> < int_max_str"
proof -
  have "(10::int) ^ 1 \<le> 10 ^ 4300" by (rule power_increasing) simp_all
  then have "10 \<le> int_max_str" by (simp only: int_max_str_def power_one_right)
  then show "\<bar>i\<bar> < 10 \<Longrightarrow> \<bar>i\<bar> < int_max_str" by simp
qed

lemma path_users: "path_join DATA_DIR ''users.json'' = ''data/users.json''"
  by (simp add: path_join_def DATA_DIR_def)

lemma path_tasks: "path_join DATA_DIR ''tasks.json'' = ''data/tasks.json''"
  by (simp add: path_join_def DATA_DIR_def)

lemma path_projects: "path_join DATA_DIR ''projects.json'' = ''data/projects.json''"
  by (simp add: path_join_def DATA_DIR_def)

text \<open>
  C4 as stated fails. A user is constructed with an id of 4301 digits; \<open>save_all\<close> on a
  data directory that can be created, written and read returns normally, though
  \<open>json.dump\<close> has raised inside \<open>FileHandler.save_data\<close> and left a file that is not
  JSON; \<open>load_all\<close> on that directory returns normally and leaves the registry empty.
\<close>

theorem save_load_loses_registry_counterexample:
  "all_users (User_run huge_id_ops) =
     [(int_max_str, \<lparr>user_id = int_max_str, name = ''Ana'', email = ''ana@x.com'',
        u_created_at = ''2024-01-01T09:00:00'', projects = []\<rparr>)] \<and>
   save_data (env_of python_disk) ''users.json'' (User_records (User_run huge_id_ops)) = Inr False \<and>
   fst (User_save_all python_disk (User_run huge_id_ops)) = Inr () \<and>
   files (snd (User_save_all python_disk (User_run huge_id_ops))) ''data/users.json'' =
     Some Unparsable \<and>
   User_load_all_disk (snd (User_save_all python_disk (User_run huge_id_ops)))
       ''2024-01-02T09:00:00'' (User_run huge_id_ops) =
     (Inr (), \<lparr>all_users = [], users_next_id = 1\<rparr>)"
proof -
  have nz: "int_max_str \<noteq> 0" using int_max_str_pos by simp
  have ab: "\<not> \<bar>int_max_str\<bar> < int_max_str" by simp
  have run: "User_run huge_id_ops =
     \<lparr>all_users = [(int_max_str, \<lparr>user_id = int_max_str, name = ''Ana'', email = ''ana@x.com'',
        u_created_at = ''2024-01-01T09:00:00'', projects = []\<rparr>)], users_next_id = 1\<rparr>"
    using nz by (simp add: huge_id_ops_def user_eval)
  have recs: "User_records (User_run huge_id_ops) =
     [\<lparr>d_user_id = Some int_max_str, d_name = Some ''Ana'', d_email = Some ''ana@x.com'',
       d_created_at = Some ''2024-01-01T09:00:00'', d_projects = Some []\<rparr>]"
    by (simp add: run User_records_def dict_values_def User_to_dict_def)
  have nd: "\<not> user_dumpable (User_records (User_run huge_id_ops))"
    using ab by (simp add: recs user_dumpable_def)
  have sd: "save_data (env_of python_disk) ''users.json'' (User_records (User_run huge_id_ops))
      = Inr False"
    using nd by (simp add: save_data_def get_file_path_def ensure_data_dir_def env_of_def
        python_disk_def)
  have da: "disk_after_save python_disk ''users.json'' (User_records (User_run huge_id_ops)) =
      python_disk\<lparr>has_dir := True,
        files := (files python_disk)(''data/users.json'' \<mapsto> Unparsable)\<rparr>"
    using nd by (simp add: disk_after_save_def Let_def path_users) (simp add: python_disk_def)
  have sa: "User_save_all python_disk (User_run huge_id_ops) =
      (Inr (), python_disk\<lparr>has_dir := True,
        files := (files python_disk)(''data/users.json'' \<mapsto> Unparsable)\<rparr>)"
    by (simp add: User_save_all_def Let_def sd da)
  have ld: "load_data (env_of (python_disk\<lparr>has_dir := True,
        files := (files python_disk)(''data/users.json'' \<mapsto> Unparsable)\<rparr>)) ''users.json''
      = Inr []"
    by (simp add: load_data_def get_file_path_def ensure_data_dir_def env_of_def path_users
        python_disk_def)
  have la: "User_load_all_disk (snd (User_save_all python_disk (User_run huge_id_ops)))
       ''2024-01-02T09:00:00'' (User_run huge_id_ops) =
     (Inr (), \<lparr>all_users = [], users_next_id = 1\<rparr>)"
    by (simp add: sa User_load_all_disk_def ld User_load_all_def)
  have c1: "all_users (User_run huge_id_ops) =
     [(int_max_str, \<lparr>user_id = int_max_str, name = ''Ana'', email = ''ana@x.com'',
        u_created_at = ''2024-01-01T09:00:00'', projects = []\<rparr>)]"
    by (simp add: run)
  have c3: "fst (User_save_all python_disk (User_run huge_id_ops)) = Inr ()"
    by (simp add: sa)
  have c4: "files (snd (User_save_all python_disk (User_run huge_id_ops))) ''data/users.json'' =
     Some Unparsable"
    by (simp add: sa)
  from c1 sd c3 c4 la show ?thesis by (intro conjI)
qed

text \<open>What \<open>load_data\<close> returns from the disk that a successful \<open>save_data\<close> has left.\<close>

lemma load_after_save:
  assumes "save_data (env_of d) filename data = Inr True"
    and "readable d (path_join DATA_DIR filename)"
  shows "load_data (env_of (disk_after_save d filename data)) filename = Inr data"
  using assms
  by (auto simp: save_data_def load_data_def get_file_path_def ensure_data_dir_def env_of_def
      disk_after_save_def Let_def split: if_splits sum.splits)

lemma User_round_trip_disk:
  assumes "\<forall>op \<in> set ops. user_clock_ok op"
    and "save_data (env_of d) ''users.json'' (User_records (User_run ops)) = Inr True"
    and "readable d (path_join DATA_DIR ''users.json'')"
  shows "fst (User_save_all d (User_run ops)) = Inr () \<and>
    fst (User_load_all_disk (snd (User_save_all d (User_run ops))) now s0) = Inr () \<and>
    all_users (snd (User_load_all_disk (snd (User_save_all d (User_run ops))) now s0))
      = all_users (User_run ops)"
proof -
  have sa: "User_save_all d (User_run ops) =
      (Inr (), disk_after_save d ''users.json'' (User_records (User_run ops)))"
    by (simp add: User_save_all_def Let_def assms(2))
  have la: "User_load_all_disk (disk_after_save d ''users.json'' (User_records (User_run ops))) now s0
      = User_load_all (User_records (User_run ops)) now s0"
    by (simp add: User_load_all_disk_def load_after_save [OF assms(2,3)])
  show ?thesis
    using User_round_trip_ops [OF assms(1), of now s0] by (simp add: sa la)
qed

lemma Task_round_trip_disk:
  assumes "\<forall>op \<in> set ops. task_clock_ok op"
    and "save_data (env_of d) ''tasks.json'' (Task_records (Task_run ops)) = Inr True"
    and "readable d (path_join DATA_DIR ''tasks.json'')"
  shows "fst (Task_save_all d (Task_run ops)) = Inr () \<and>
    fst (Task_load_all_disk (snd (Task_save_all d (Task_run ops))) now s0) = Inr () \<and>
    all_tasks (snd (Task_load_all_disk (snd (Task_save_all d (Task_run ops))) now s0))
      = all_tasks (Task_run ops)"
proof -
  have sa: "Task_save_all d (Task_run ops) =
      (Inr (), disk_after_save d ''tasks.json'' (Task_records (Task_run ops)))"
    by (simp add: Task_save_all_def Let_def assms(2))
  have la: "Task_load_all_disk (disk_after_save d ''tasks.json'' (Task_records (Task_run ops))) now s0
      = Task_load_all (Task_records (Task_run ops)) now s0"
    by (simp add: Task_load_all_disk_def load_after_save [OF assms(2,3)])
  show ?thesis
    using Task_round_trip_ops [OF assms(1), of now s0] by (simp add: sa la)
qed

text \<open>
  Where an entry of the registry comes from after the loop of \<open>Project.load_all\<close>: it was
  there before, or a record of the list carries its id and a due date that the parser
  turns into the entry's.
\<close>

lemma Project_from_dict_source:
  assumes "Project_from_dict parse r now s = (Inr p, s1)"
  shows "\<exists>i dd. d_project_id r = Some i \<and> (i \<noteq> 0 \<longrightarrow> i = project_id p) \<and>
           d_due_date r = Some dd \<and> parse dd = Inr (due_date p)"
  using assms
  by (auto simp: Project_from_dict_def Project_init_def Project_get_next_id_def Let_def
      split: option.splits sum.splits if_splits)

lemma Project_load_loop_source:
  assumes "(k, p) \<in> set (all_projects (snd (Project_load_loop parse rs now s)))"
  shows "(k, p) \<in> set (all_projects s) \<or>
     (\<exists>r \<in> set rs. \<exists>i dd. d_project_id r = Some i \<and> (i \<noteq> 0 \<longrightarrow> i = k) \<and>
        d_due_date r = Some dd \<and> parse dd = Inr (due_date p))"
  using assms
proof (induction rs arbitrary: s)
  case Nil
  then show ?case by simp
next
  case (Cons r rs)
  obtain res s1 where fd: "Project_from_dict parse r now s = (res, s1)"
    by (cases "Project_from_dict parse r now s")
  show ?case
  proof (cases res)
    case (Inl e)
    with fd Cons.prems have "(k, p) \<in> set (all_projects s1)" by simp
    with Project_from_dict_Inl [OF fd [unfolded Inl]] show ?thesis by simp
  next
    case (Inr q)
    let ?s3 = "\<lparr>all_projects = dict_set (project_id q) q (all_projects s),
                projects_next_id = max (projects_next_id s) (project_id q + 1)\<rparr>"
    from fd Inr have fq: "Project_from_dict parse r now s = (Inr q, s1)" by simp
    from Cons.prems have mem: "(k, p) \<in> set (all_projects (snd (Project_load_loop parse rs now ?s3)))"
      by (simp only: Project_load_loop_Cons [OF fq])
    from Cons.IH [OF mem] consider
      (old) "(k, p) \<in> set (dict_set (project_id q) q (all_projects s))" |
      (new) "\<exists>r \<in> set rs. \<exists>i dd. d_project_id r = Some i \<and> (i \<noteq> 0 \<longrightarrow> i = k) \<and>
               d_due_date r = Some dd \<and> parse dd = Inr (due_date p)"
      by auto
    then show ?thesis
    proof cases
      case old
      from set_dict_set [OF old] show ?thesis
      proof
        assume "(k, p) = (project_id q, q)"
        with Project_from_dict_source [OF fq] show ?thesis by auto
      next
        assume "(k, p) \<in> set (all_projects s)"
        then show ?thesis by simp
      qed
    next
      case new
      then show ?thesis by auto
    qed
  qed
qed

lemma Project_round_trip_list:
  assumes "Project_storable s"
    and "Project_records isoformat s = Inr data"
  shows "(fst (Project_load_all parse data now s0) = Inr () \<and>
          all_projects (snd (Project_load_all parse data now s0)) = all_projects s) \<longleftrightarrow>
         (\<forall>(k, p) \<in> set (all_projects s).
            \<exists>dd. isoformat (due_date p) = Inr dd \<and> parse dd = Inr (due_date p))"
proof
  assume rt: "\<forall>(k, p) \<in> set (all_projects s).
            \<exists>dd. isoformat (due_date p) = Inr dd \<and> parse dd = Inr (due_date p)"
  from assms(2) have l2: "list_all2 (\<lambda>e r. Project_to_dict isoformat (snd e) = Inr r)
      (all_projects s) data"
    by (simp add: Project_records_def dict_values_def map_raising_Inr list_all2_map1)
  have "fst (Project_load_loop parse data now Project_initial) = Inr () \<and>
        all_projects (snd (Project_load_loop parse data now Project_initial))
          = all_projects Project_initial @ all_projects s"
    by (rule Project_load_loop_saved [where isoformat = isoformat])
       (use assms(1) l2 rt in \<open>auto simp: Project_storable_def Project_initial_def\<close>)
  then show "fst (Project_load_all parse data now s0) = Inr () \<and>
          all_projects (snd (Project_load_all parse data now s0)) = all_projects s"
    by (simp add: Project_load_all_initial Project_initial_def)
next
  assume same: "fst (Project_load_all parse data now s0) = Inr () \<and>
          all_projects (snd (Project_load_all parse data now s0)) = all_projects s"
  from assms(2) have l2: "list_all2 (\<lambda>q r. Project_to_dict isoformat q = Inr r)
      (map snd (all_projects s)) data"
    by (simp add: Project_records_def dict_values_def map_raising_Inr)
  show "\<forall>(k, p) \<in> set (all_projects s).
            \<exists>dd. isoformat (due_date p) = Inr dd \<and> parse dd = Inr (due_date p)"
  proof (clarify)
    fix k p
    assume kp: "(k, p) \<in> set (all_projects s)"
    with same have "(k, p) \<in> set (all_projects (snd (Project_load_loop parse data now Project_initial)))"
      by (simp add: Project_load_all_initial)
    from Project_load_loop_source [OF this] obtain r i dd where
      r: "r \<in> set data" and i: "d_project_id r = Some i" "i \<noteq> 0 \<longrightarrow> i = k"
      and dd: "d_due_date r = Some dd" "parse dd = Inr (due_date p)"
      by (auto simp: Project_initial_def)
    from list_all2_source [OF l2 r] obtain q where
      q: "q \<in> snd ` set (all_projects s)" and tq: "Project_to_dict isoformat q = Inr r"
      by auto
    from q obtain k' where kq: "(k', q) \<in> set (all_projects s)" by auto
    with assms(1) have idq: "project_id q = k'" "k' \<noteq> 0" by (auto simp: Project_storable_def)
    from tq i dd(1) have "i = project_id q" and iso: "isoformat (due_date q) = Inr dd"
      by (auto simp: Project_to_dict_Inr)
    with idq i(2) have "k = k'" by simp
    with kp kq assms(1) have "q = p"
      by (auto simp: Project_storable_def dest: eq_key_imp_eq_value)
    with iso dd(2) show "\<exists>dd. isoformat (due_date p) = Inr dd \<and> parse dd = Inr (due_date p)"
      by auto
  qed
qed

lemma Project_round_trip_disk:
  assumes "\<forall>op \<in> set ops. project_clock_ok op"
    and "Project_records isoformat (Project_run parse ops) = Inr data"
    and "save_data (env_of d) ''projects.json'' data = Inr True"
    and "readable d (path_join DATA_DIR ''projects.json'')"
  shows "fst (Project_save_all isoformat d (Project_run parse ops)) = Inr () \<and>
    ((fst (Project_load_all_disk parse
             (snd (Project_save_all isoformat d (Project_run parse ops))) now s0) = Inr () \<and>
      all_projects (snd (Project_load_all_disk parse
             (snd (Project_save_all isoformat d (Project_run parse ops))) now s0))
        = all_projects (Project_run parse ops)) \<longleftrightarrow>
     (\<forall>(k, p) \<in> set (all_projects (Project_run parse ops)).
        \<exists>dd. isoformat (due_date p) = Inr dd \<and> parse dd = Inr (due_date p)))"
proof -
  let ?s = "Project_run parse ops"
  have st: "Project_storable ?s"
    unfolding Project_run_def by (rule Project_fold_storable [OF Project_storable_initial assms(1)])
  have sa: "Project_save_all isoformat d ?s = (Inr (), disk_after_save d ''projects.json'' data)"
    by (simp add: Project_save_all_def assms(2,3))
  have la: "Project_load_all_disk parse (disk_after_save d ''projects.json'' data) now s0
      = Project_load_all parse data now s0"
    by (simp add: Project_load_all_disk_def load_after_save [OF assms(3,4)])
  show ?thesis
    using Project_round_trip_list [OF st assms(2), of parse now s0] by (simp add: sa la)
qed

lemma Project_save_all_raises:
  assumes "Project_records isoformat s = Inl e"
  shows "Project_save_all isoformat d s = (Inl e, d)"
  using assms by (simp add: Project_save_all_def)

text \<open>
  C4, as amended. Take a registry reached from the initial one by calls of the public
  surface (constructors with or without an explicit id, factories, setters, relationship
  methods, loads of any records; the timestamp \<open>isoformat()\<close> returns is not empty), and a
  data directory on which \<open>FileHandler.save_data\<close> returns \<open>True\<close> for the list that
  \<open>save_all\<close> hands over, and on which the file written can be read. Then \<open>save_all\<close>
  returns normally, and \<open>load_all\<close> on the directory it leaves

  \<^item> returns normally and gives back the users and the tasks: the same ids, in the same
    order, each with an entity equal in every field;

  \<^item> returns normally and gives back the projects if and only if every registered due
    date is one that \<open>isoformat\<close> writes as a string that the parser reads back as that
    date.

  When \<open>to_dict\<close> of a project raises, \<open>Project.save_all\<close> raises and writes nothing.
  The lists of an entity are compared by value: \<open>from_dict\<close> builds new list objects.
\<close>

theorem save_load_round_trip:
  "((\<forall>op \<in> set uops. user_clock_ok op) \<and>
    save_data (env_of du) ''users.json'' (User_records (User_run uops)) = Inr True \<and>
    readable du (path_join DATA_DIR ''users.json'') \<longrightarrow>
      fst (User_save_all du (User_run uops)) = Inr () \<and>
      fst (User_load_all_disk (snd (User_save_all du (User_run uops))) now su) = Inr () \<and>
      all_users (snd (User_load_all_disk (snd (User_save_all du (User_run uops))) now su))
        = all_users (User_run uops)) \<and>
   ((\<forall>op \<in> set tops. task_clock_ok op) \<and>
    save_data (env_of dt) ''tasks.json'' (Task_records (Task_run tops)) = Inr True \<and>
    readable dt (path_join DATA_DIR ''tasks.json'') \<longrightarrow>
      fst (Task_save_all dt (Task_run tops)) = Inr () \<and>
      fst (Task_load_all_disk (snd (Task_save_all dt (Task_run tops))) now st) = Inr () \<and>
      all_tasks (snd (Task_load_all_disk (snd (Task_save_all dt (Task_run tops))) now st))
        = all_tasks (Task_run tops)) \<and>
   ((\<forall>op \<in> set pops. project_clock_ok op) \<and>
    Project_records isoformat (Project_run parse pops) = Inr data \<and>
    save_data (env_of dp) ''projects.json'' data = Inr True \<and>
    readable dp (path_join DATA_DIR ''projects.json'') \<longrightarrow>
      fst (Project_save_all isoformat dp (Project_run parse pops)) = Inr () \<and>
      ((fst (Project_load_all_disk parse
               (snd (Project_save_all isoformat dp (Project_run parse pops))) now sp) = Inr () \<and>
        all_projects (snd (Project_load_all_disk parse
               (snd (Project_save_all isoformat dp (Project_run parse pops))) now sp))
          = all_projects (Project_run parse pops)) \<longleftrightarrow>
       (\<forall>(k, p) \<in> set (all_projects (Project_run parse pops)).
          \<exists>dd. isoformat (due_date p) = Inr dd \<and> parse dd = Inr (due_date p)))) \<and>
   (Project_records isoformat sq = Inl e \<longrightarrow> Project_save_all isoformat dp sq = (Inl e, dp))"
proof -
  have u: "(\<forall>op \<in> set uops. user_clock_ok op) \<and>
    save_data (env_of du) ''users.json'' (User_records (User_run uops)) = Inr True \<and>
    readable du (path_join DATA_DIR ''users.json'') \<longrightarrow>
      fst (User_save_all du (User_run uops)) = Inr () \<and>
      fst (User_load_all_disk (snd (User_save_all du (User_run uops))) now su) = Inr () \<and>
      all_users (snd (User_load_all_disk (snd (User_save_all du (User_run uops))) now su))
        = all_users (User_run uops)"
    using User_round_trip_disk [of uops du now su] by blast
  have t: "(\<forall>op \<in> set tops. task_clock_ok op) \<and>
    save_data (env_of dt) ''tasks.json'' (Task_records (Task_run tops)) = Inr True \<and>
    readable dt (path_join DATA_DIR ''tasks.json'') \<longrightarrow>
      fst (Task_save_all dt (Task_run tops)) = Inr () \<and>
      fst (Task_load_all_disk (snd (Task_save_all dt (Task_run tops))) now st) = Inr () \<and>
      all_tasks (snd (Task_load_all_disk (snd (Task_save_all dt (Task_run tops))) now st))
        = all_tasks (Task_run tops)"
    using Task_round_trip_disk [of tops dt now st] by blast
  have p: "(\<forall>op \<in> set pops. project_clock_ok op) \<and>
    Project_records isoformat (Project_run parse pops) = Inr data \<and>
    save_data (env_of dp) ''projects.json'' data = Inr True \<and>
    readable dp (path_join DATA_DIR ''projects.json'') \<longrightarrow>
      fst (Project_save_all isoformat dp (Project_run parse pops)) = Inr () \<and>
      ((fst (Project_load_all_disk parse
               (snd (Project_save_all isoformat dp (Project_run parse pops))) now sp) = Inr () \<and>
        all_projects (snd (Project_load_all_disk parse
               (snd (Project_save_all isoformat dp (Project_run parse pops))) now sp))
          = all_projects (Project_run parse pops)) \<longleftrightarrow>
       (\<forall>(k, p) \<in> set (all_projects (Project_run parse pops)).
          \<exists>dd. isoformat (due_date p) = Inr dd \<and> parse dd = Inr (due_date p)))"
    using Project_round_trip_disk [where ops = pops and isoformat = isoformat and parse = parse
        and data = data and d = dp and now = now and ?s0.0 = sp]
    by blast
  have r: "Project_records isoformat sq = Inl e \<longrightarrow> Project_save_all isoformat dp sq = (Inl e, dp)"
    by (rule impI) (rule Project_save_all_raises)
  show ?thesis by (rule conjI [OF u conjI [OF t conjI [OF p r]]])
qed

theorem save_load_round_trip_witness:
  "all_users (snd (User_load_all_disk
       (snd (User_save_all python_disk (User_run example_user_ops))) [] User_initial)) =
     [(1, \<lparr>user_id = 1, name = ''Ana'', email = ''ana@x.com'',
           u_created_at = ''2024-01-01T09:00:00'', projects = [1]\<rparr>)] \<and>
   all_tasks (snd (Task_load_all_disk
       (snd (Task_save_all fresh_disk (Task_run example_task_ops))) [] Task_initial)) =
     [(1, \<lparr>task_id = 1, t_title = ''Write doc'', t_description = [], status = ''completed'',
           t_project_id = 1, assigned_users = [1], t_created_at = ''2024-01-01T09:02:00''\<rparr>)] \<and>
   all_projects (snd (Project_load_all_disk Inr
       (snd (Project_save_all Inr fresh_disk (Project_run Inr example_project_ops)))
       [] Project_initial)) =
     [(1, \<lparr>project_id = 1, p_title = ''Launch'', p_description = [],
           due_date = ''2099-01-01T00:00:00'', p_user_id = 1, tasks = [1],
           p_created_at = ''2024-01-01T09:01:00''\<rparr>)]"
proof -
  let ?data = "[\<lparr>d_project_id = Some 1, d_p_title = Some ''Launch'', d_p_description = Some [],
      d_due_date = Some ''2099-01-01T00:00:00'', d_p_user_id = Some 1, d_tasks = Some [1],
      d_p_created_at = Some ''2024-01-01T09:01:00''\<rparr>]"
  have u: "\<forall>op \<in> set example_user_ops. user_clock_ok op"
    by (simp add: example_user_ops_def)
  have p: "\<forall>op \<in> set example_project_ops. project_clock_ok op"
    by (simp add: example_project_ops_def)
  have t: "\<forall>op \<in> set example_task_ops. task_clock_ok op"
    by (simp add: example_task_ops_def)
  have ru: "all_users (User_run example_user_ops) =
     [(1, \<lparr>user_id = 1, name = ''Ana'', email = ''ana@x.com'',
           u_created_at = ''2024-01-01T09:00:00'', projects = [1]\<rparr>)]"
    by (simp add: example_user_ops_def user_eval User_update_def add_project_def list_add_def)
  have rp: "all_projects (Project_run Inr example_project_ops) =
     [(1, \<lparr>project_id = 1, p_title = ''Launch'', p_description = [],
           due_date = ''2099-01-01T00:00:00'', p_user_id = 1, tasks = [1],
           p_created_at = ''2024-01-01T09:01:00''\<rparr>)]"
    by (simp add: example_project_ops_def Project_run_def Project_initial_def Project_create_def
        Project_init_def Project_get_next_id_def Project_update_def Project_find_by_id_def
        dict_get_def add_task_def list_add_def or_str_def or_list_def Let_def)
  have rk: "all_tasks (Task_run example_task_ops) =
     [(1, \<lparr>task_id = 1, t_title = ''Write doc'', t_description = [], status = ''completed'',
           t_project_id = 1, assigned_users = [1], t_created_at = ''2024-01-01T09:02:00''\<rparr>)]"
    by (simp add: example_task_ops_def Task_run_def Task_initial_def Task_create_def
        Task_init_def Task_get_next_id_def Task_update_def Task_find_by_id_def
        dict_get_def assign_user_def list_add_def mark_complete_def Task_status_setter_def
        VALID_STATUSES_def or_str_def or_list_def Let_def)
  have one: "1 < int_max_str" using int_max_str_small [of 1] by simp
  have su: "save_data (env_of python_disk) ''users.json'' (User_records (User_run example_user_ops))
      = Inr True"
    using one by (simp add: save_data_def get_file_path_def ensure_data_dir_def env_of_def python_disk_def
        User_records_def dict_values_def User_to_dict_def ru user_dumpable_def int_max_str_small)
  have sk: "save_data (env_of fresh_disk) ''tasks.json'' (Task_records (Task_run example_task_ops))
      = Inr True"
    by (simp add: save_data_def get_file_path_def ensure_data_dir_def env_of_def fresh_disk_def)
  have rec: "Project_records Inr (Project_run Inr example_project_ops) = Inr ?data"
    by (simp add: Project_records_def dict_values_def rp Project_to_dict_def)
  have sp: "save_data (env_of fresh_disk) ''projects.json'' ?data = Inr True"
    by (simp add: save_data_def get_file_path_def ensure_data_dir_def env_of_def fresh_disk_def)
  have ok: "\<forall>(k, p) \<in> set (all_projects (Project_run Inr example_project_ops)).
      \<exists>dd. (Inr (due_date p) :: error + string) = Inr dd \<and>
            (Inr dd :: error + string) = Inr (due_date p)"
    by (simp add: rp)
  note inst = save_load_round_trip [where uops = example_user_ops and du = python_disk
      and tops = example_task_ops and dt = fresh_disk
      and pops = example_project_ops and dp = fresh_disk and parse = Inr and isoformat = Inr
      and data = ?data and now = "[]" and su = User_initial and st = Task_initial
      and sp = Project_initial]
  from inst [THEN conjunct1] u su
  have a: "all_users (snd (User_load_all_disk
       (snd (User_save_all python_disk (User_run example_user_ops))) [] User_initial)) =
      all_users (User_run example_user_ops)"
    by (simp add: python_disk_def)
  from inst [THEN conjunct2, THEN conjunct1] t sk
  have b: "all_tasks (snd (Task_load_all_disk
       (snd (Task_save_all fresh_disk (Task_run example_task_ops))) [] Task_initial)) =
      all_tasks (Task_run example_task_ops)"
    by (simp add: fresh_disk_def)
  have rd: "readable (fresh_disk :: project_data disk) (path_join DATA_DIR ''projects.json'')"
    by (simp add: fresh_disk_def)
  from inst [THEN conjunct2, THEN conjunct2, THEN conjunct1] p rec sp rd ok
  have c: "all_projects (snd (Project_load_all_disk Inr
       (snd (Project_save_all Inr fresh_disk (Project_run Inr example_project_ops)))
       [] Project_initial)) = all_projects (Project_run Inr example_project_ops)"
    by blast
  from a b c show ?thesis by (simp only: ru rk rp)
qed

section \<open>The counter after a load\<close>




section \<open>Relationship lists\<close>

text \<open>
  C6. The six relationship operations are idempotent: adding an id that is already in
  the list returns the object unchanged, removing an id that is not in the list returns
  the object unchanged, and adding the same id twice gives what adding it once gives.
  None of the six has a raise.
\<close>

theorem relationship_ops_idempotent:
  "(pid \<in> set (projects u) \<longrightarrow> add_project pid u = u) \<and>
   (pid \<notin> set (projects u) \<longrightarrow> remove_project pid u = u) \<and>
   add_project pid (add_project pid u) = add_project pid u \<and>
   (tid \<in> set (tasks p) \<longrightarrow> add_task tid p = p) \<and>
   (tid \<notin> set (tasks p) \<longrightarrow> remove_task tid p = p) \<and>
   add_task tid (add_task tid p) = add_task tid p \<and>
   (uid \<in> set (assigned_users t) \<longrightarrow> assign_user uid t = t) \<and>
   (uid \<notin> set (assigned_users t) \<longrightarrow> unassign_user uid t = t) \<and>
   assign_user uid (assign_user uid t) = assign_user uid t"
  by (simp add: add_project_def remove_project_def add_task_def remove_task_def
      assign_user_def unassign_user_def list_add_def list_remove_def)

theorem relationship_ops_idempotent_witness:
  "add_project 4 example_user = example_user \<and>
   remove_project 7 example_user = example_user \<and>
   add_task 5 example_project = example_project \<and>
   remove_task 9 example_project = example_project \<and>
   assign_user 1 example_task = example_task \<and>
   unassign_user 3 example_task = example_task \<and>
   projects (add_project 7 (add_project 7 example_user)) = [4, 2, 7]"
proof -
  have in1: "4 \<in> set (projects example_user)" and in2: "5 \<in> set (tasks example_project)"
    and in3: "1 \<in> set (assigned_users example_task)"
    by (simp_all add: example_user_def example_project_def example_task_def)
  have out1: "7 \<notin> set (projects example_user)" and out2: "9 \<notin> set (tasks example_project)"
    and out3: "3 \<notin> set (assigned_users example_task)"
    by (simp_all add: example_user_def example_project_def example_task_def)
  have once: "projects (add_project 7 example_user) = [4, 2, 7]"
    by (simp add: example_user_def add_project_def list_add_def)
  from relationship_ops_idempotent [of 4 example_user 5 example_project 1 example_task]
    in1 in2 in3
  have adds: "add_project 4 example_user = example_user \<and>
      add_task 5 example_project = example_project \<and>
      assign_user 1 example_task = example_task"
    by blast
  from relationship_ops_idempotent [of 7 example_user 9 example_project 3 example_task]
    out1 out2 out3
  have rems: "remove_project 7 example_user = example_user \<and>
      remove_task 9 example_project = example_project \<and>
      unassign_user 3 example_task = example_task \<and>
      add_project 7 (add_project 7 example_user) = add_project 7 example_user"
    by blast
  from adds rems once show ?thesis by simp
qed

section \<open>Identity\<close>




section \<open>File handler\<close>

text \<open>
  C8. With no data directory and a directory that cannot be created, \<open>load_data\<close> and
  \<open>save_data\<close> raise: \<open>get_file_path\<close> is called before their \<open>try\<close>.
\<close>

theorem file_handler_raises_without_data_dir:
  "load_data unwritable_env ''users.json'' = Inl OSError \<and>
   save_data unwritable_env ''users.json'' [] = Inl OSError"
  by (simp add: load_data_def save_data_def get_file_path_def ensure_data_dir_def unwritable_env_def)

text \<open>
  Once the data directory is there, nothing is raised: an absent file and any exception
  of reading give the empty list, and writing answers with a boolean.
\<close>

lemma file_handler_absorbs_errors_inside_try:
  assumes "ensure_data_dir env = Inr ()"
  shows "(\<exists>data. load_data env filename = Inr data) \<and>
         (\<not> file_exists env (path_join DATA_DIR filename) \<longrightarrow> load_data env filename = Inr []) \<and>
         (\<forall>e. read_json env (path_join DATA_DIR filename) = Inl e \<longrightarrow> load_data env filename = Inr []) \<and>
         save_data env filename data =
           Inr (case write_json env (path_join DATA_DIR filename) data of Inr _ \<Rightarrow> True | Inl _ \<Rightarrow> False)"
  using assms
  by (auto simp: load_data_def save_data_def get_file_path_def split: sum.splits error.splits)

section \<open>Task status\<close>

text \<open>
  C9. The factory \<open>Task.create\<close> always returns a task, and its status is pending;
  \<open>mark_complete\<close> succeeds, sets the status to completed and makes \<open>is_completed\<close> true;
  the status setter raises ValueError on every value outside \<open>VALID_STATUSES\<close> and leaves
  the task as it was.
\<close>

theorem task_status_transitions:
  "(\<exists>t s'. Task_create ti de pid now s = (Inr t, s') \<and> status t = ''pending'') \<and>
   (\<exists>t'. mark_complete t = (Inr (), t') \<and> status t' = ''completed'' \<and> is_completed t') \<and>
   (v \<notin> set VALID_STATUSES \<longrightarrow> Task_status_setter v t = (Inl ValueError, t))"
  by (simp add: Task_create_def Task_init_def Task_get_next_id_def mark_complete_def
      Task_status_setter_def is_completed_def VALID_STATUSES_def Let_def split: prod.splits)

theorem task_status_transitions_witness:
  "Task_status_setter ''bogus'' example_task = (Inl ValueError, example_task) \<and>
   snd (mark_complete example_task) = example_task\<lparr>status := ''completed''\<rparr>"
proof -
  have "''bogus'' \<notin> set VALID_STATUSES"
    by (simp add: VALID_STATUSES_def)
  with task_status_transitions [of _ _ _ _ _ example_task "''bogus''"]
  have "Task_status_setter ''bogus'' example_task = (Inl ValueError, example_task)"
    by blast
  moreover have "snd (mark_complete example_task) = example_task\<lparr>status := ''completed''\<rparr>"
    by (simp add: mark_complete_def Task_status_setter_def VALID_STATUSES_def)
  ultimately show ?thesis by simp
qed

text \<open>
  C10. A Task constructed with an invalid status and no explicit id raises ValueError
  after \<open>_get_next_id\<close> has advanced the counter and before the registration: the
  registry (hence \<open>get_all\<close>) is what it was, the counter is one higher, and the next
  \<open>create\<close> succeeds with the id after the consumed one.
\<close>

theorem invalid_status_consumes_id:
  assumes "st \<notin> set VALID_STATUSES"
  shows "Task_init ti de pid None st au cat now s
           = (Inl ValueError, s\<lparr>tasks_next_id := tasks_next_id s + 1\<rparr>) \<and>
         Task_get_all (snd (Task_init ti de pid None st au cat now s)) = Task_get_all s \<and>
         (\<exists>t s'. Task_create ti' de' pid' now' (snd (Task_init ti de pid None st au cat now s))
                    = (Inr t, s') \<and> task_id t = tasks_next_id s + 1)"
  using assms
  by (simp add: Task_create_def Task_init_def Task_get_next_id_def Task_get_all_def Let_def
       VALID_STATUSES_def split: prod.splits)

theorem invalid_status_consumes_id_witness:
  "Task_init ''T'' ''D'' 1 None ''bogus'' None None ''2024-01-01T00:00:00'' Task_initial
     = (Inl ValueError, \<lparr>all_tasks = [], tasks_next_id = 2\<rparr>) \<and>
   (\<exists>t s'. Task_create ''T2'' ''D2'' 1 ''2024-01-02T00:00:00''
             (snd (Task_init ''T'' ''D'' 1 None ''bogus'' None None ''2024-01-01T00:00:00''
                Task_initial)) = (Inr t, s') \<and> task_id t = 2)"
proof -
  have bogus: "''bogus'' \<notin> set VALID_STATUSES"
    by (simp add: VALID_STATUSES_def)
  note inst = invalid_status_consumes_id [OF bogus, of "''T''" "''D''" 1 None None
      "''2024-01-01T00:00:00''" Task_initial "''T2''" "''D2''" 1 "''2024-01-02T00:00:00''"]
  have c: "tasks_next_id Task_initial + 1 = 2"
    by (simp add: Task_initial_def)
  have a: "Task_init ''T'' ''D'' 1 None ''bogus'' None None ''2024-01-01T00:00:00'' Task_initial
     = (Inl ValueError, \<lparr>all_tasks = [], tasks_next_id = 2\<rparr>)"
    using inst by (simp add: Task_initial_def)
  have b: "\<exists>t s'. Task_create ''T2'' ''D2'' 1 ''2024-01-02T00:00:00''
             (snd (Task_init ''T'' ''D'' 1 None ''bogus'' None None ''2024-01-01T00:00:00''
                Task_initial)) = (Inr t, s') \<and> task_id t = 2"
    using inst unfolding c by blast
  from a b show ?thesis by (rule conjI)
qed

end
